theory Spec2Isabelle
  imports Complex_Main "HOL-Library.Sublist" "HOL-Library.Log_Nat"
begin

section \<open>JavaScript values\<close>

text \<open>
  The field values that occur in player and profile objects: \<open>undefined\<close>, \<open>null\<close>,
  booleans, integral numbers (the roster index \<open>playerId\<close>) and strings. Strings are
  lists of code units.
\<close>

datatype jsval = JUndefined | JNull | JBool bool | JNum int | JStr string

text \<open>ToBoolean: what \<open>!x\<close>, \<open>x && y\<close>, \<open>x || y\<close> and \<open>if (x)\<close> test.\<close>

fun truthy :: "jsval \<Rightarrow> bool" where
  "truthy JUndefined = False"
| "truthy JNull = False"
| "truthy (JBool b) = b"
| "truthy (JNum n) = (n \<noteq> 0)"
| "truthy (JStr s) = (s \<noteq> [])"

definition jor :: "jsval \<Rightarrow> jsval \<Rightarrow> jsval" where
  "jor a b = (if truthy a then a else b)"

definition jand :: "jsval \<Rightarrow> jsval \<Rightarrow> jsval" where
  "jand a b = (if truthy a then b else a)"

text \<open>\<open>String(x)\<close>. Integral numbers print in decimal.\<close>

fun dec_nat :: "nat \<Rightarrow> string" where
  "dec_nat n = (if n < 10 then [char_of (48 + n)]
                else dec_nat (n div 10) @ [char_of (48 + n mod 10)])"

declare dec_nat.simps [simp del]

fun to_str :: "jsval \<Rightarrow> string" where
  "to_str JUndefined = ''undefined''"
| "to_str JNull = ''null''"
| "to_str (JBool b) = (if b then ''true'' else ''false'')"
| "to_str (JNum n) = (if n < 0 then CHR ''-'' # dec_nat (nat (- n)) else dec_nat (nat n))"
| "to_str (JStr s) = s"

text \<open>\<open>s.includes(sub)\<close>: \<open>sub\<close> occurs in \<open>s\<close> as a contiguous substring.\<close>

fun str_includes :: "string \<Rightarrow> string \<Rightarrow> bool" where
  "str_includes [] sub = (sub = [])"
| "str_includes (c # cs) sub = (prefix sub (c # cs) \<or> str_includes cs sub)"

section \<open>The retry envelope (scripts/moose\_scraper.js)\<close>

text \<open>
  A thrown \<open>Error\<close>: its \<open>name\<close> and its \<open>message\<close>. \<open>String(err)\<close> is the name
  when the message is empty, the message when the name is empty, and
  \<open>name: message\<close> otherwise.
\<close>

record js_error =
  err_name :: string
  err_message :: string

definition error_to_string :: "js_error \<Rightarrow> string" where
  "error_to_string e =
     (if err_message e = [] then err_name e
      else if err_name e = [] then err_message e
      else err_name e @ '': '' @ err_message e)"

definition RETRY_BACKOFFS_MS :: "nat list" where
  "RETRY_BACKOFFS_MS = [250, 500, 750]"

text \<open>
  \<open>const message = String(err && err.message ? err.message : err);
  return message.includes('not attached to the DOM') || message.includes('Target closed');\<close>
\<close>

definition isRetryableDetachError :: "js_error \<Rightarrow> bool" where
  "isRetryableDetachError e =
     (let message = (if err_message e \<noteq> [] then err_message e else error_to_string e)
      in str_includes message ''not attached to the DOM'' \<or>
         str_includes message ''Target closed'')"

text \<open>
  What a call of \<open>withDetachRetry\<close> does: how it ends, how often it invoked the
  action, and the delays it slept through, in order.
\<close>

datatype 'a retry_end = Returned 'a | Threw js_error | FellThrough

record 'a retry_run =
  run_end :: "'a retry_end"
  run_calls :: nat
  run_sleeps :: "nat list"

text \<open>
  \<open>const waitMs = backoffs[attempt - 1] || backoffs[backoffs.length - 1] || 250;\<close>
  An index out of range reads \<open>undefined\<close>, and \<open>0\<close> is falsy as well.
\<close>

definition backoff_at :: "nat list \<Rightarrow> nat \<Rightarrow> nat" where
  "backoff_at bs i = (if i < length bs then bs ! i else 0)"

definition waitMs :: "nat list \<Rightarrow> nat \<Rightarrow> nat" where
  "waitMs backoffs attempt =
     (if backoff_at backoffs (attempt - 1) \<noteq> 0 then backoff_at backoffs (attempt - 1)
      else if backoff_at backoffs (length backoffs - 1) \<noteq> 0
        then backoff_at backoffs (length backoffs - 1)
      else 250)"

text \<open>
  The loop \<open>for (let attempt = 1; attempt <= attempts; attempt += 1)\<close>. The action is
  invoked once per attempt; \<open>action k\<close> is what its \<open>k\<close>-th invocation does: \<open>Inr v\<close>
  when it resolves to \<open>v\<close>, \<open>Inl e\<close> when it throws \<open>e\<close>. The accumulators \<open>calls\<close>
  and \<open>sleeps\<close> record the invocations made and the delays awaited so far. When
  \<open>attempts\<close> is below 1 the body never runs and the function ends without a
  \<open>return\<close> (\<open>FellThrough\<close>).
\<close>

function withDetachRetry_loop ::
  "(nat \<Rightarrow> js_error + 'a) \<Rightarrow> nat \<Rightarrow> nat list \<Rightarrow> nat \<Rightarrow> nat \<Rightarrow> nat list \<Rightarrow> 'a retry_run"
where
  "withDetachRetry_loop action attempts backoffs attempt calls sleeps =
     (if attempt \<le> attempts then
        (case action attempt of
           Inr v \<Rightarrow> \<lparr>run_end = Returned v, run_calls = Suc calls, run_sleeps = sleeps\<rparr>
         | Inl err \<Rightarrow>
             if \<not> isRetryableDetachError err \<or> attempt = attempts
             then \<lparr>run_end = Threw err, run_calls = Suc calls, run_sleeps = sleeps\<rparr>
             else withDetachRetry_loop action attempts backoffs (Suc attempt) (Suc calls)
                    (sleeps @ [waitMs backoffs attempt]))
      else \<lparr>run_end = FellThrough, run_calls = calls, run_sleeps = sleeps\<rparr>)"
  by pat_completeness auto
termination
  by (relation "measure (\<lambda>(action, attempts, backoffs, attempt, calls, sleeps).
        Suc attempts - attempt)") auto

declare withDetachRetry_loop.simps [simp del]

text \<open>
  \<open>withDetachRetry(action, options)\<close> with the options the caller gave:
  \<open>attempts = 3\<close> and \<open>backoffs = RETRY_BACKOFFS_MS\<close> are the defaults, and every
  call in the scraper takes them.
\<close>

definition withDetachRetry_opts ::
  "(nat \<Rightarrow> js_error + 'a) \<Rightarrow> nat \<Rightarrow> nat list \<Rightarrow> 'a retry_run" where
  "withDetachRetry_opts action attempts backoffs =
     withDetachRetry_loop action attempts backoffs 1 0 []"

definition withDetachRetry :: "(nat \<Rightarrow> js_error + 'a) \<Rightarrow> 'a retry_run" where
  "withDetachRetry action = withDetachRetry_opts action 3 RETRY_BACKOFFS_MS"

text \<open>An attempt that fails with a transient error.\<close>

definition transient_failure :: "(nat \<Rightarrow> js_error + 'a) \<Rightarrow> nat \<Rightarrow> bool" where
  "transient_failure action k =
     (case action k of Inl e \<Rightarrow> isRetryableDetachError e | Inr v \<Rightarrow> False)"

section \<open>The dashboard server: data model\<close>

text \<open>
  A player or profile object is a finite map from field names to values. Reading a
  field that is absent gives \<open>undefined\<close>. The spread \<open>{...a, ...b}\<close> is \<open>a ++ b\<close>
  and \<open>{...a, k: v}\<close> is \<open>a(k \<mapsto> v)\<close>.
\<close>

type_synonym jsobj = "string \<rightharpoonup> jsval"

definition fld :: "jsobj \<Rightarrow> string \<Rightarrow> jsval" where
  "fld obj k = (case obj k of None \<Rightarrow> JUndefined | Some v \<Rightarrow> v)"

text \<open>
  JavaScript numbers as they occur in the stat tables: IEEE 754 binary64 values. A
  finite value is the rational it denotes; negative zero is not told apart from zero.
\<close>

datatype jsnum = NaN | PosInf | NegInf | Fin rat

type_synonym pstats = "string \<rightharpoonup> jsnum"

text \<open>
  One tab of a cache or of a scrape result: \<open>{ metrics, stats, columnMap }\<close>. A field
  that is absent (or \<open>null\<close>) is \<open>None\<close>. The stats are keyed by player label.
\<close>

record tabdata =
  t_metrics :: "string list option"
  t_stats :: "(string \<rightharpoonup> pstats) option"
  t_columnMap :: "(string \<times> nat) list option"

record serverInfo =
  selectionLabel :: string
  itemsText :: "string list"
  targetFound :: bool

record missing_entry =
  m_label :: jsval
  m_steamId :: jsval
  m_steamUrl :: jsval
  m_reason :: string

text \<open>The per-server cache document, as parsed from \<open>data.json\<close>.\<close>

record cache =
  c_serverName :: jsval
  c_profiles :: "jsobj list option"
  c_tabs :: "(string \<rightharpoonup> tabdata) option"
  c_missing :: "missing_entry list option"
  c_serverInfo :: "serverInfo option"
  c_updatedAt :: "int option"

text \<open>
  The second argument of \<open>mergePlayerStats\<close>. Its tabs are held as the list that
  \<open>Object.entries\<close> enumerates; the keys of an object are distinct.
\<close>

record playerResult =
  r_serverName :: jsval
  r_profiles :: "jsobj list option"
  r_tabs :: "(string \<times> tabdata) list option"
  r_missing :: "missing_entry list option"
  r_serverInfo :: "serverInfo option"

text \<open>The cache store \<open>{ servers: { name: cache } }\<close>; a server may hold \<open>null\<close>.\<close>

record store =
  servers :: "(string \<rightharpoonup> cache option) option"

section \<open>The dashboard server: server names\<close>

definition SERVER_NAME :: string where
  "SERVER_NAME = ''US Monthly (Premium)''"

definition ALLOWED_SERVERS :: "string list" where
  "ALLOWED_SERVERS = [''US Monthly (Premium)'', ''US Biweekly (Premium)'']"

text \<open>
  \<open>toLowerCase\<close> and \<open>trim\<close> on strings whose code units are below 256. The
  code units with a lower case are the letters \<open>A\<close> to \<open>Z\<close> (65 to 90) and the
  Latin-1 capitals 192 to 214 and 216 to 222; each is lowered by adding 32, and
  every other code unit is kept. \<open>trim\<close> strips white space and line
  terminators: tab (9), line feed (10), vertical tab (11), form feed (12), carriage
  return (13), space (32) and the no-break space (160).
\<close>

definition lower_char :: "char \<Rightarrow> char" where
  "lower_char c = (let n = (of_char c :: nat)
                   in if (65 \<le> n \<and> n \<le> 90) \<or> (192 \<le> n \<and> n \<le> 214) \<or> (216 \<le> n \<and> n \<le> 222)
                      then char_of (n + 32) else c)"

definition toLowerCase :: "string \<Rightarrow> string" where
  "toLowerCase s = map lower_char s"

definition is_space :: "char \<Rightarrow> bool" where
  "is_space c = ((of_char c :: nat) \<in> {9, 10, 11, 12, 13, 32, 160})"

definition trim :: "string \<Rightarrow> string" where
  "trim s = rev (dropWhile is_space (rev (dropWhile is_space s)))"

text \<open>\<open>xs.find(p)\<close>: the first element that satisfies \<open>p\<close>, or \<open>undefined\<close>.\<close>

fun find_first :: "('a \<Rightarrow> bool) \<Rightarrow> 'a list \<Rightarrow> 'a option" where
  "find_first p [] = None"
| "find_first p (x # xs) = (if p x then Some x else find_first p xs)"

text \<open>
  \<open>if (!serverName) return SERVER_NAME;
  const trimmed = String(serverName).trim();
  const match = ALLOWED_SERVERS.find((name) => name.toLowerCase() === trimmed.toLowerCase());
  return match || SERVER_NAME;\<close>
\<close>

definition normalizeServerName :: "jsval \<Rightarrow> string" where
  "normalizeServerName serverName =
     (if \<not> truthy serverName then SERVER_NAME
      else let trimmed = trim (to_str serverName) in
        (case find_first (\<lambda>name. toLowerCase name = toLowerCase trimmed) ALLOWED_SERVERS of
           None \<Rightarrow> SERVER_NAME
         | Some match \<Rightarrow> if match \<noteq> [] then match else SERVER_NAME))"

text \<open>
  \<open>if (!store || !store.servers) return null;
  return store.servers[serverName] || null;\<close>
\<close>

definition getServerCache :: "store option \<Rightarrow> string \<Rightarrow> cache option" where
  "getServerCache st name =
     (case st of None \<Rightarrow> None
      | Some s \<Rightarrow> (case servers s of None \<Rightarrow> None
          | Some m \<Rightarrow> (case m name of None \<Rightarrow> None | Some c \<Rightarrow> c)))"

text \<open>
  \<open>if (!store.servers) store.servers = {};
  store.servers[serverName] = cache;\<close>
  The result is the store that is then written to \<open>data.json\<close>.
\<close>

definition setServerCache :: "store \<Rightarrow> string \<Rightarrow> cache \<Rightarrow> store" where
  "setServerCache s name c =
     s\<lparr>servers := Some ((case servers s of None \<Rightarrow> Map.empty | Some m \<Rightarrow> m)(name \<mapsto> Some c))\<rparr>"

text \<open>
  What \<open>loadCache\<close> parsed: nothing (no file, or malformed), a store, a single cache
  in the older layout (it has a \<open>serverName\<close>), or another document.
\<close>

datatype raw_document = RawNothing | RawStore store | RawCache cache | RawOther

definition loadCacheStore :: "raw_document \<Rightarrow> store" where
  "loadCacheStore raw =
     (case raw of
        RawNothing \<Rightarrow> \<lparr>servers = Some Map.empty\<rparr>
      | RawStore s \<Rightarrow> (if servers s \<noteq> None then s else \<lparr>servers = Some Map.empty\<rparr>)
      | RawCache c \<Rightarrow>
          (if truthy (c_serverName c)
           then \<lparr>servers = Some [normalizeServerName (c_serverName c) \<mapsto> Some c]\<rparr>
           else \<lparr>servers = Some Map.empty\<rparr>)
      | RawOther \<Rightarrow> \<lparr>servers = Some Map.empty\<rparr>)"

text \<open>
  The routes take the server name from the request and normalise it before they
  touch the store: \<open>getServerCache(store, normalizeServerName(serverName))\<close> and
  \<open>setServerCache(store, normalizeServerName(serverName), cache)\<close>.
\<close>

definition route_getServerCache :: "store option \<Rightarrow> jsval \<Rightarrow> cache option" where
  "route_getServerCache st requested = getServerCache st (normalizeServerName requested)"

definition route_setServerCache :: "store \<Rightarrow> jsval \<Rightarrow> cache \<Rightarrow> store" where
  "route_setServerCache s requested c = setServerCache s (normalizeServerName requested) c"

section \<open>The dashboard server: folding a scrape result into the cache\<close>

text \<open>\<open>xs.findIndex(p)\<close>: the index of the first match, \<open>None\<close> for \<open>-1\<close>.\<close>

fun findIndex :: "('a \<Rightarrow> bool) \<Rightarrow> 'a list \<Rightarrow> nat option" where
  "findIndex p [] = None"
| "findIndex p (x # xs) = (if p x then Some 0 else map_option Suc (findIndex p xs))"

text \<open>
  The predicate given to \<open>findIndex\<close>:
  \<open>(profile.steamId && p.steamId && String(profile.steamId) === String(p.steamId)) ||
  (profile.steamUrl && p.steamUrl && String(profile.steamUrl) === String(p.steamUrl))\<close>
\<close>

definition same_identity :: "jsobj \<Rightarrow> jsobj \<Rightarrow> bool" where
  "same_identity profile p =
     ((truthy (fld profile ''steamId'') \<and> truthy (fld p ''steamId'') \<and>
         to_str (fld profile ''steamId'') = to_str (fld p ''steamId'')) \<or>
      (truthy (fld profile ''steamUrl'') \<and> truthy (fld p ''steamUrl'') \<and>
         to_str (fld profile ''steamUrl'') = to_str (fld p ''steamUrl'')))"

text \<open>
  One round of \<open>newProfiles.forEach\<close>: overwrite the first match with
  \<open>{ ...mergedProfiles[matchIndex], ...profile }\<close>, or push the profile.
\<close>

definition mergeProfile :: "jsobj \<Rightarrow> jsobj list \<Rightarrow> jsobj list" where
  "mergeProfile profile mergedProfiles =
     (case findIndex (same_identity profile) mergedProfiles of
        Some matchIndex \<Rightarrow>
          mergedProfiles[matchIndex := (mergedProfiles ! matchIndex) ++ profile]
      | None \<Rightarrow> mergedProfiles @ [profile])"

definition mergeProfiles :: "jsobj list \<Rightarrow> jsobj list \<Rightarrow> jsobj list" where
  "mergeProfiles existingProfiles newProfiles = fold mergeProfile newProfiles existingProfiles"

text \<open>
  The new value of \<open>next.tabs[tabKey]\<close>:
  \<open>const existingTab = next.tabs[tabKey] || {};
  const mergedStats = { ...(existingTab.stats || {}) };
  Object.entries(tabData?.stats || {}).forEach(([statKey, values]) => { mergedStats[statKey] = values; });
  next.tabs[tabKey] = { ...existingTab, ...tabData, stats: mergedStats,
    metrics: tabData?.metrics?.length ? tabData.metrics : existingTab.metrics || [] };\<close>
\<close>

definition mergeTab :: "tabdata option \<Rightarrow> tabdata \<Rightarrow> tabdata" where
  "mergeTab existing tabData =
     (let existingTab = (case existing of
            None \<Rightarrow> \<lparr>t_metrics = None, t_stats = None, t_columnMap = None\<rparr>
          | Some t \<Rightarrow> t);
          mergedStats = (case t_stats existingTab of None \<Rightarrow> Map.empty | Some st \<Rightarrow> st)
                        ++ (case t_stats tabData of None \<Rightarrow> Map.empty | Some st \<Rightarrow> st);
          existingMetrics = (case t_metrics existingTab of None \<Rightarrow> [] | Some ms \<Rightarrow> ms)
      in \<lparr>t_metrics = Some (case t_metrics tabData of
               None \<Rightarrow> existingMetrics
             | Some ms \<Rightarrow> if length ms \<noteq> 0 then ms else existingMetrics),
          t_stats = Some mergedStats,
          t_columnMap = (case t_columnMap tabData of
               None \<Rightarrow> t_columnMap existingTab
             | Some cm \<Rightarrow> Some cm)\<rparr>)"

definition mergeTabEntry ::
  "string \<times> tabdata \<Rightarrow> (string \<rightharpoonup> tabdata) \<Rightarrow> (string \<rightharpoonup> tabdata)" where
  "mergeTabEntry entry next_tabs =
     (case entry of (tabKey, tabData) \<Rightarrow>
        next_tabs(tabKey \<mapsto> mergeTab (next_tabs tabKey) tabData))"

text \<open>
  \<open>mergePlayerStats(cache, playerResult)\<close>. \<open>now\<close> is the value of \<open>Date.now()\<close>.
  \<open>next\<close> starts as \<open>{ ...cache }\<close>, or as \<open>{ tabs: {} }\<close> when there is no cache. With
  a cache that has no \<open>tabs\<close>, \<open>next.tabs[tabKey]\<close> throws a \<open>TypeError\<close> on the first
  tab of the result. The \<open>missing\<close> of \<open>playerResult\<close> is not read.
\<close>

datatype merge_error = TypeError

definition mergePlayerStats ::
  "int \<Rightarrow> cache option \<Rightarrow> playerResult \<Rightarrow> merge_error + cache" where
  "mergePlayerStats now cache playerResult =
     (let next_serverName =
            jor (jor (r_serverName playerResult)
                     (case cache of None \<Rightarrow> JUndefined | Some c \<Rightarrow> c_serverName c))
                (JStr SERVER_NAME);
          next_serverInfo =
            (case r_serverInfo playerResult of
               Some i \<Rightarrow> Some i
             | None \<Rightarrow> (case cache of None \<Rightarrow> None | Some c \<Rightarrow> c_serverInfo c));
          next_missing =
            (case cache of None \<Rightarrow> []
             | Some c \<Rightarrow> (case c_missing c of None \<Rightarrow> [] | Some ms \<Rightarrow> ms));
          newProfiles = (case r_profiles playerResult of None \<Rightarrow> [] | Some ps \<Rightarrow> ps);
          existingProfiles =
            (case cache of None \<Rightarrow> []
             | Some c \<Rightarrow> (case c_profiles c of None \<Rightarrow> [] | Some ps \<Rightarrow> ps));
          entries = (case r_tabs playerResult of None \<Rightarrow> [] | Some es \<Rightarrow> es);
          next_tabs = (case cache of None \<Rightarrow> Some Map.empty | Some c \<Rightarrow> c_tabs c)
      in case next_tabs of
           None \<Rightarrow>
             if entries \<noteq> [] then Inl TypeError
             else Inr \<lparr>c_serverName = next_serverName,
                       c_profiles = Some (mergeProfiles existingProfiles newProfiles),
                       c_tabs = None,
                       c_missing = Some next_missing,
                       c_serverInfo = next_serverInfo,
                       c_updatedAt = Some now\<rparr>
         | Some tm \<Rightarrow>
             Inr \<lparr>c_serverName = next_serverName,
                  c_profiles = Some (mergeProfiles existingProfiles newProfiles),
                  c_tabs = Some (fold mergeTabEntry entries tm),
                  c_missing = Some next_missing,
                  c_serverInfo = next_serverInfo,
                  c_updatedAt = Some now\<rparr>)"

section \<open>The dashboard server: removing a player from the caches\<close>

text \<open>
  \<open>if (displayName && stats[displayName]) delete stats[displayName];
  if (id && stats[id]) delete stats[id];
  if (url && stats[url]) delete stats[url];\<close>
  A stats entry is an object, so \<open>stats[k]\<close> is truthy exactly when \<open>k\<close> is a key.
\<close>

definition delete_stat :: "jsval \<Rightarrow> (string \<rightharpoonup> pstats) \<Rightarrow> (string \<rightharpoonup> pstats)" where
  "delete_stat key st =
     (if truthy key then
        (case st (to_str key) of None \<Rightarrow> st | Some values \<Rightarrow> st(to_str key := None))
      else st)"

definition purgeTab :: "jsval \<Rightarrow> jsval \<Rightarrow> jsval \<Rightarrow> tabdata \<Rightarrow> tabdata" where
  "purgeTab displayName ident url tabData =
     tabData\<lparr>t_stats := Some (delete_stat url (delete_stat ident (delete_stat displayName
        (case t_stats tabData of None \<Rightarrow> Map.empty | Some st \<Rightarrow> st))))\<rparr>"

text \<open>
  The filter on the profiles drops \<open>p\<close> when
  \<open>id && p.steamId && String(p.steamId) === id\<close> or
  \<open>url && p.steamUrl && String(p.steamUrl) === url\<close>.
\<close>

definition profile_removed :: "jsval \<Rightarrow> jsval \<Rightarrow> jsobj \<Rightarrow> bool" where
  "profile_removed ident url p =
     ((truthy ident \<and> truthy (fld p ''steamId'') \<and> JStr (to_str (fld p ''steamId'')) = ident) \<or>
      (truthy url \<and> truthy (fld p ''steamUrl'') \<and> JStr (to_str (fld p ''steamUrl'')) = url))"

text \<open>
  The filter on the missing list:
  \<open>const itemId = item?.steamId ? String(item.steamId) : null;
  const itemUrl = item?.steamUrl ? String(item.steamUrl) : null;
  if (id && itemId && itemId === id) return false;
  if (url && itemUrl && itemUrl === url) return false;\<close>
\<close>

definition missing_removed :: "jsval \<Rightarrow> jsval \<Rightarrow> missing_entry \<Rightarrow> bool" where
  "missing_removed ident url item =
     (let itemId = (if truthy (m_steamId item) then JStr (to_str (m_steamId item)) else JNull);
          itemUrl = (if truthy (m_steamUrl item) then JStr (to_str (m_steamUrl item)) else JNull)
      in (truthy ident \<and> truthy itemId \<and> itemId = ident) \<or>
         (truthy url \<and> truthy itemUrl \<and> itemUrl = url))"

text \<open>
  \<open>removePlayerFromCache(cache, player)\<close>; \<open>player?.steamId\<close> reads \<open>undefined\<close> from
  a missing player.
\<close>

definition removePlayerFromCache :: "int \<Rightarrow> cache option \<Rightarrow> jsobj option \<Rightarrow> cache option" where
  "removePlayerFromCache now cache player =
     (case cache of
        None \<Rightarrow> None
      | Some c \<Rightarrow>
          (let pl = (case player of None \<Rightarrow> Map.empty | Some p \<Rightarrow> p);
               ident = (if truthy (fld pl ''steamId'')
                        then JStr (to_str (fld pl ''steamId'')) else JNull);
               url = (if truthy (fld pl ''steamUrl'')
                      then JStr (to_str (fld pl ''steamUrl'')) else JNull);
               displayName = jor (fld pl ''displayName'') JNull
           in Some (c\<lparr>
                c_profiles := Some (filter
                  (\<lambda>p. \<not> profile_removed ident url p)
                  (case c_profiles c of None \<Rightarrow> [] | Some ps \<Rightarrow> ps)),
                c_tabs := (case c_tabs c of
                    None \<Rightarrow> None
                  | Some tm \<Rightarrow> Some (\<lambda>tabKey. map_option (purgeTab displayName ident url) (tm tabKey))),
                c_missing := Some (filter
                  (\<lambda>item. \<not> missing_removed ident url item)
                  (case c_missing c of None \<Rightarrow> [] | Some ms \<Rightarrow> ms)),
                c_updatedAt := Some now\<rparr>)))"

text \<open>
  The store update of \<open>app.delete('/api/players/:id')\<close>:
  \<open>Object.keys(store.servers || {}).forEach((name) => {
    const updated = removePlayerFromCache(store.servers[name], removed);
    if (updated) store.servers[name] = updated; });\<close>
  \<open>clock name\<close> is the value of \<open>Date.now()\<close> while the cache of \<open>name\<close> is rebuilt.
\<close>

definition removeFromStore :: "(string \<Rightarrow> int) \<Rightarrow> store \<Rightarrow> jsobj \<Rightarrow> store" where
  "removeFromStore clock st removed =
     (case servers st of
        None \<Rightarrow> st
      | Some m \<Rightarrow>
          st\<lparr>servers := Some (\<lambda>name.
            (case m name of
               None \<Rightarrow> None
             | Some c \<Rightarrow>
                 (case removePlayerFromCache (clock name) c (Some removed) of
                    None \<Rightarrow> Some c
                  | Some updated \<Rightarrow> Some (Some updated))))\<rparr>)"

section \<open>The dashboard server: the response built from a cache\<close>

definition FALLBACK_AVATAR :: string where
  "FALLBACK_AVATAR =
     ''https://steamcommunity-a.akamaihd.net/public/shared/images/responsive/share_steam_logo.png''"

text \<open>
  \<open>new URL(s).pathname\<close>, with \<open>None\<close> when the constructor throws. The URL parser
  of the platform is a parameter (\<open>parser\<close>); what is used of it here is that a
  string with no colon has no scheme and is rejected.
\<close>

definition URL_pathname :: "(string \<Rightarrow> string option) \<Rightarrow> string \<Rightarrow> string option" where
  "URL_pathname parser s = (if CHR '':'' \<in> set s then parser s else None)"

text \<open>\<open>s.split(sep)\<close> for a separator of one code unit.\<close>

fun split_on :: "char \<Rightarrow> string \<Rightarrow> string list" where
  "split_on sep [] = [[]]"
| "split_on sep (c # cs) =
     (if c = sep then [] # split_on sep cs
      else (case split_on sep cs of [] \<Rightarrow> [[c]] | p # ps \<Rightarrow> (c # p) # ps))"

text \<open>
  \<open>try { const u = new URL(steamUrl);
    const parts = u.pathname.split('/').filter(Boolean);
    return parts.pop() || null; } catch { return null; }\<close>
\<close>

definition steamIdFromUrl :: "(string \<Rightarrow> string option) \<Rightarrow> jsval \<Rightarrow> jsval" where
  "steamIdFromUrl parser steamUrl =
     (case URL_pathname parser (to_str steamUrl) of
        None \<Rightarrow> JNull
      | Some pathname \<Rightarrow>
          (let parts = filter (\<lambda>part. part \<noteq> []) (split_on CHR ''/'' pathname)
           in if parts = [] then JNull else jor (JStr (last parts)) JNull))"

text \<open>\<open>/^\d{17}$/.test(String(steamId || ''))\<close>\<close>

definition is_digit :: "char \<Rightarrow> bool" where
  "is_digit c = (let n = (of_char c :: nat) in 48 \<le> n \<and> n \<le> 57)"

definition isValidSteamId :: "jsval \<Rightarrow> bool" where
  "isValidSteamId steamId =
     (let s = to_str (jor steamId (JStr [])) in length s = 17 \<and> list_all is_digit s)"

text \<open>
  The two \<open>Map\<close>s that \<open>mergeCachedProfiles\<close> fills from the roster:
  \<open>if (player.steamId) bySteamId.set(String(player.steamId), player);\<close>
  A later player replaces an earlier one under the same key.
\<close>

definition index_players :: "string \<Rightarrow> jsobj list \<Rightarrow> (string \<rightharpoonup> jsobj)" where
  "index_players field players =
     fold (\<lambda>player m. if truthy (fld player field)
                       then m(to_str (fld player field) \<mapsto> player) else m)
          players Map.empty"

definition has_key :: "('k \<rightharpoonup> 'v) \<Rightarrow> 'k \<Rightarrow> bool" where
  "has_key m k = (case m k of None \<Rightarrow> False | Some v \<Rightarrow> True)"

text \<open>
  \<open>(profile.steamId && bySteamId.get(String(profile.steamId))) ||
  (profile.steamUrl && bySteamUrl.get(String(profile.steamUrl))) || null\<close>
  The values of the maps are objects, hence truthy.
\<close>

definition lookup_match :: "(string \<rightharpoonup> 'v) \<Rightarrow> (string \<rightharpoonup> 'v) \<Rightarrow> jsobj \<Rightarrow> 'v option" where
  "lookup_match bySteamId bySteamUrl profile =
     (case (if truthy (fld profile ''steamId'')
            then bySteamId (to_str (fld profile ''steamId'')) else None) of
        Some found \<Rightarrow> Some found
      | None \<Rightarrow> (if truthy (fld profile ''steamUrl'')
                 then bySteamUrl (to_str (fld profile ''steamUrl'')) else None))"

definition mergeCachedProfiles :: "jsobj list \<Rightarrow> jsobj list \<Rightarrow> jsobj list" where
  "mergeCachedProfiles profiles players =
     (let bySteamId = index_players ''steamId'' players;
          bySteamUrl = index_players ''steamUrl'' players
      in filter
           (\<lambda>profile.
              let ident = (if truthy (fld profile ''steamId'')
                           then JStr (to_str (fld profile ''steamId'')) else JNull);
                  url = (if truthy (fld profile ''steamUrl'')
                         then JStr (to_str (fld profile ''steamUrl'')) else JNull)
              in (truthy ident \<and> has_key bySteamId (to_str ident)) \<or>
                 (truthy url \<and> has_key bySteamUrl (to_str url)))
           (map
             (\<lambda>profile.
                case lookup_match bySteamId bySteamUrl profile of
                  None \<Rightarrow> profile
                | Some found \<Rightarrow>
                    profile(''steamUrl'' \<mapsto> jor (fld found ''steamUrl'') (fld profile ''steamUrl''),
                            ''steamId'' \<mapsto> jor (fld found ''steamId'') (fld profile ''steamId''),
                            ''displayName'' \<mapsto>
                               jor (fld found ''displayName'') (fld profile ''displayName''),
                            ''avatarUrl'' \<mapsto>
                               jor (fld found ''avatarUrl'') (fld profile ''avatarUrl'')))
             profiles))"

text \<open>
  \<open>attachPlayerIds\<close> keeps the roster index with the player:
  \<open>const id = player.steamId ? String(player.steamId) : null;
  if (id) bySteamId.set(id, { index, player });\<close>
\<close>

definition index_players_at ::
  "string \<Rightarrow> jsobj list \<Rightarrow> (string \<rightharpoonup> nat \<times> jsobj)" where
  "index_players_at field players =
     fold (\<lambda>(index, player) m.
             let key = (if truthy (fld player field)
                        then JStr (to_str (fld player field)) else JNull)
             in if truthy key then m(to_str key \<mapsto> (index, player)) else m)
          (enumerate 0 players) Map.empty"

definition attachPlayerIds :: "jsobj list \<Rightarrow> jsobj list \<Rightarrow> jsobj list" where
  "attachPlayerIds profiles players =
     (let bySteamId = index_players_at ''steamId'' players;
          bySteamUrl = index_players_at ''steamUrl'' players
      in map
           (\<lambda>profile.
              case lookup_match bySteamId bySteamUrl profile of
                None \<Rightarrow> profile
              | Some (index, player) \<Rightarrow>
                  profile(''playerId'' \<mapsto> JNum (int index),
                          ''storedSteamUrl'' \<mapsto> jor (fld player ''steamUrl'') JNull,
                          ''storedSteamId'' \<mapsto> jor (fld player ''steamId'') JNull))
           profiles)"

text \<open>
  \<open>/steamcommunity\.com\/id\/[^/]+/i.test(s)\<close>: somewhere in \<open>s\<close> the text
  \<open>steamcommunity.com/id/\<close> occurs, in any case of its letters, followed by a code
  unit other than the slash.
\<close>

definition vanity_here :: "string \<Rightarrow> bool" where
  "vanity_here s =
     (prefix ''steamcommunity.com/id/'' (toLowerCase s) \<and>
      (case drop 22 s of [] \<Rightarrow> False | c # cs \<Rightarrow> c \<noteq> CHR ''/''))"

fun is_vanity_url :: "string \<Rightarrow> bool" where
  "is_vanity_url [] = False"
| "is_vanity_url (c # cs) = (vanity_here (c # cs) \<or> is_vanity_url cs)"

text \<open>
  \<open>const candidateId = profile.steamId || profile.storedSteamId || null;
  const needsSteam64 = !isValidSteamId(candidateId) &&
    (candidateId || /steamcommunity\.com\/id\/[^/]+/i.test(profile.steamUrl || profile.storedSteamUrl || ''));
  return { ...profile, needsSteam64 };\<close>
\<close>

definition withNeedsSteam64 :: "jsobj \<Rightarrow> jsobj" where
  "withNeedsSteam64 profile =
     (let candidateId = jor (jor (fld profile ''steamId'') (fld profile ''storedSteamId'')) JNull;
          needsSteam64 =
            (if isValidSteamId candidateId then JBool False
             else jor candidateId
                    (JBool (is_vanity_url (to_str
                       (jor (jor (fld profile ''steamUrl'') (fld profile ''storedSteamUrl''))
                            (JStr []))))))
      in profile(''needsSteam64'' \<mapsto> needsSteam64))"

text \<open>
  \<open>filterStatsToProfiles(tabs, profiles)\<close>: in every tab, keep the stats whose key is
  \<open>p.displayName || p.fallbackName || p.steamId || p.steamUrl\<close> for a profile \<open>p\<close>.
  The keys of \<open>stats\<close> are strings and the \<open>Set\<close> compares without conversion.
\<close>

definition profile_key :: "jsobj \<Rightarrow> jsval" where
  "profile_key p =
     jor (jor (jor (fld p ''displayName'') (fld p ''fallbackName'')) (fld p ''steamId''))
         (fld p ''steamUrl'')"

definition filterStatsToProfiles ::
  "(string \<rightharpoonup> tabdata) \<Rightarrow> jsobj list \<Rightarrow> (string \<rightharpoonup> tabdata)" where
  "filterStatsToProfiles tabs_in profiles =
     (let keys = filter truthy (map profile_key profiles)
      in (\<lambda>tabKey. map_option
            (\<lambda>tabData. tabData\<lparr>t_stats := Some (\<lambda>statKey.
                if JStr statKey \<in> set keys
                then (case t_stats tabData of None \<Rightarrow> None | Some st \<Rightarrow> st statKey)
                else None)\<rparr>)
            (tabs_in tabKey)))"

text \<open>The identity under which \<open>buildResponseFromCache\<close> compares roster and cache:
  \<open>p.steamId || steamIdFromUrl(p.steamUrl)\<close>.\<close>

definition identity_key :: "(string \<Rightarrow> string option) \<Rightarrow> jsobj \<Rightarrow> jsval" where
  "identity_key parser p = jor (fld p ''steamId'') (steamIdFromUrl parser (fld p ''steamUrl''))"

text \<open>The placeholder profile of a roster player that the cache does not cover.\<close>

definition placeholder :: "jsobj \<Rightarrow> jsobj" where
  "placeholder player =
     [''steamUrl'' \<mapsto> fld player ''steamUrl'',
      ''steamId'' \<mapsto> fld player ''steamId'',
      ''displayName'' \<mapsto>
         jor (jor (fld player ''displayName'') (fld player ''steamId'')) (fld player ''steamUrl''),
      ''fallbackName'' \<mapsto>
         jor (jor (fld player ''displayName'') (fld player ''steamId'')) (fld player ''steamUrl''),
      ''avatarUrl'' \<mapsto> jor (fld player ''avatarUrl'') (JStr FALLBACK_AVATAR)]"

definition mergedIds :: "(string \<Rightarrow> string option) \<Rightarrow> jsobj list \<Rightarrow> string list" where
  "mergedIds parser mergedProfiles =
     map to_str (filter truthy (map (identity_key parser) mergedProfiles))"

definition missingProfiles ::
  "(string \<Rightarrow> string option) \<Rightarrow> jsobj list \<Rightarrow> jsobj list \<Rightarrow> jsobj list" where
  "missingProfiles parser mergedProfiles players =
     map placeholder
       (filter (\<lambda>player. let ident = identity_key parser player
                          in truthy ident \<and> to_str ident \<notin> set (mergedIds parser mergedProfiles))
               players)"

record response =
  resp_serverName :: jsval
  resp_metrics :: "string list"
  resp_stats :: "string \<rightharpoonup> pstats"
  resp_profiles :: "jsobj list"
  resp_tabs :: "string \<rightharpoonup> tabdata"
  resp_missing :: "missing_entry list"
  resp_serverInfo :: "serverInfo option"
  resp_updatedAt :: "int option"

text \<open>\<open>buildResponseFromCache(cache, players)\<close>; \<open>None\<close> is the \<open>null\<close> it returns
  when there is no cache.\<close>

definition buildResponseFromCache ::
  "(string \<Rightarrow> string option) \<Rightarrow> cache option \<Rightarrow> jsobj list \<Rightarrow> response option" where
  "buildResponseFromCache parser cache players =
     (case cache of
        None \<Rightarrow> None
      | Some c \<Rightarrow>
          (let mergedProfiles =
                 mergeCachedProfiles (case c_profiles c of None \<Rightarrow> [] | Some ps \<Rightarrow> ps) players;
               combinedProfiles = mergedProfiles @ missingProfiles parser mergedProfiles players;
               profilesWithIds = map withNeedsSteam64 (attachPlayerIds combinedProfiles players);
               tabs_out = filterStatsToProfiles
                 (case c_tabs c of None \<Rightarrow> Map.empty | Some tm \<Rightarrow> tm) combinedProfiles
           in Some \<lparr>
                resp_serverName = jor (c_serverName c) (JStr SERVER_NAME),
                resp_metrics = (case tabs_out ''pvp'' of
                    None \<Rightarrow> []
                  | Some t \<Rightarrow> (case t_metrics t of None \<Rightarrow> [] | Some ms \<Rightarrow> ms)),
                resp_stats = (case tabs_out ''pvp'' of
                    None \<Rightarrow> Map.empty
                  | Some t \<Rightarrow> (case t_stats t of None \<Rightarrow> Map.empty | Some st \<Rightarrow> st)),
                resp_profiles = profilesWithIds,
                resp_tabs = tabs_out,
                resp_missing = (case c_missing c of None \<Rightarrow> [] | Some ms \<Rightarrow> ms),
                resp_serverInfo = c_serverInfo c,
                resp_updatedAt = (case c_updatedAt c of
                    None \<Rightarrow> None
                  | Some t \<Rightarrow> if t \<noteq> 0 then Some t else None)\<rparr>))"

section \<open>The scraper: numbers\<close>

text \<open>
  Rounding a rational to binary64, to nearest with ties to even: the values between
  \<open>2 powi e\<close> and \<open>2 powi (e + 1)\<close> are \<open>2 powi (e - 52)\<close> apart, those below
  \<open>2 powi (- 1022)\<close> are \<open>2 powi (- 1074)\<close> apart, and a result of \<open>2 powi 1024\<close> or
  more is an infinity.
\<close>

definition floor_log2 :: "rat \<Rightarrow> int" where
  "floor_log2 q =
     (case quotient_of q of (p, d) \<Rightarrow>
        let e = bitlen p - bitlen d in if 2 powi e \<le> q then e else e - 1)"

definition round_half_even :: "rat \<Rightarrow> int" where
  "round_half_even x =
     (let f = \<lfloor>x\<rfloor>; r = x - of_int f
      in if r < 1 / 2 then f else if 1 / 2 < r then f + 1 else if even f then f else f + 1)"

definition r64 :: "rat \<Rightarrow> jsnum" where
  "r64 q =
     (if q = 0 then Fin 0
      else let a = \<bar>q\<bar>;
               e = max (floor_log2 a) (- 1022);
               u = 2 powi (e - 52);
               r = of_int (round_half_even (a / u)) * u
           in if 2 powi 1024 \<le> r then (if 0 < q then PosInf else NegInf)
              else Fin (if 0 < q then r else - r))"

text \<open>Division and multiplication of numbers; a zero divisor is positive zero.\<close>

fun jdiv :: "jsnum \<Rightarrow> jsnum \<Rightarrow> jsnum" where
  "jdiv (Fin a) (Fin b) =
     (if b = 0 then (if a = 0 then NaN else if 0 < a then PosInf else NegInf)
      else r64 (a / b))"
| "jdiv (Fin a) PosInf = Fin 0"
| "jdiv (Fin a) NegInf = Fin 0"
| "jdiv PosInf (Fin b) = (if 0 \<le> b then PosInf else NegInf)"
| "jdiv NegInf (Fin b) = (if 0 \<le> b then NegInf else PosInf)"
| "jdiv x y = NaN"

fun jmul :: "jsnum \<Rightarrow> jsnum \<Rightarrow> jsnum" where
  "jmul (Fin a) (Fin b) = r64 (a * b)"
| "jmul (Fin a) PosInf = (if a = 0 then NaN else if 0 < a then PosInf else NegInf)"
| "jmul (Fin a) NegInf = (if a = 0 then NaN else if 0 < a then NegInf else PosInf)"
| "jmul PosInf (Fin b) = (if b = 0 then NaN else if 0 < b then PosInf else NegInf)"
| "jmul NegInf (Fin b) = (if b = 0 then NaN else if 0 < b then NegInf else PosInf)"
| "jmul PosInf PosInf = PosInf"
| "jmul PosInf NegInf = NegInf"
| "jmul NegInf PosInf = NegInf"
| "jmul NegInf NegInf = PosInf"
| "jmul x y = NaN"

text \<open>
  \<open>Number(x.toFixed(2))\<close>. For a finite \<open>x\<close> below \<open>10^21\<close> in magnitude, \<open>toFixed(2)\<close>
  prints \<open>n / 100\<close> for the integer \<open>n\<close> nearest to \<open>100 * |x|\<close>, the larger one of two,
  with the sign of \<open>x\<close>; \<open>Number\<close> reads that decimal back. Otherwise it prints
  \<open>String(x)\<close>, which reads back as \<open>x\<close>.
\<close>

definition toFixed2_Number :: "jsnum \<Rightarrow> jsnum" where
  "toFixed2_Number x =
     (case x of
        NaN \<Rightarrow> NaN
      | PosInf \<Rightarrow> PosInf
      | NegInf \<Rightarrow> NegInf
      | Fin q \<Rightarrow>
          if 10 ^ 21 \<le> \<bar>q\<bar> then Fin q
          else let n = \<lfloor>\<bar>q\<bar> * 100 + 1 / 2\<rfloor>
               in r64 ((if q < 0 then - 1 else 1) * of_int n / 100))"

text \<open>\<open>x > 0\<close> and \<open>x >= 0\<close> where \<open>x\<close> is read from an object; \<open>None\<close> is \<open>undefined\<close>.\<close>

definition greater_zero :: "jsnum option \<Rightarrow> bool" where
  "greater_zero x =
     (case x of Some (Fin q) \<Rightarrow> 0 < q | Some PosInf \<Rightarrow> True | _ \<Rightarrow> False)"

definition at_least_zero :: "jsnum option \<Rightarrow> bool" where
  "at_least_zero x =
     (case x of Some (Fin q) \<Rightarrow> 0 \<le> q | Some PosInf \<Rightarrow> True | _ \<Rightarrow> False)"

text \<open>
  \<open>Number(s)\<close> for a non-empty string of digits and dots: a decimal literal has at
  most one dot and at least one digit; any other string gives \<open>NaN\<close>.
\<close>

definition digits_value :: "string \<Rightarrow> nat" where
  "digits_value ds = foldl (\<lambda>acc c. 10 * acc + (of_char c - 48)) 0 ds"

definition decimal_to_number :: "string \<Rightarrow> jsnum" where
  "decimal_to_number s =
     (let whole = takeWhile (\<lambda>c. c \<noteq> CHR ''.'') s;
          rest = dropWhile (\<lambda>c. c \<noteq> CHR ''.'') s;
          frac = drop 1 rest
      in if CHR ''.'' \<in> set frac \<or> (whole = [] \<and> frac = []) then NaN
         else r64 (of_nat (digits_value whole) + of_nat (digits_value frac) / 10 ^ length frac))"

text \<open>\<open>text.replace(/[^\d.]/g, '')\<close>\<close>

definition numeric_chars :: "string \<Rightarrow> string" where
  "numeric_chars text = filter (\<lambda>c. is_digit c \<or> c = CHR ''.'') text"

section \<open>The scraper: reading the stats of a row\<close>

text \<open>
  What the page shows while \<open>extractStatsFromRow\<close> reads the \<open>k\<close>-th metric:
  \<open>cellText k idx\<close> is the result of \<open>innerText()\<close> on cell \<open>idx\<close> of the row (it may
  throw), and \<open>popVals k idx\<close> are the texts of the tooltip nodes found after hovering
  over cell \<open>idx\<close>, \<open>None\<close> when the hover or the evaluation threw.
\<close>

record row_view =
  cellText :: "nat \<Rightarrow> nat \<Rightarrow> js_error + string"
  popVals :: "nat \<Rightarrow> nat \<Rightarrow> string list option"

text \<open>
  \<open>const text = (await cell.innerText()).trim();
  const numeric = text.replace(/[^\d.]/g, '');
  return Number(numeric || 0);\<close>
\<close>

definition getNumeric :: "row_view \<Rightarrow> nat \<Rightarrow> nat \<Rightarrow> js_error + jsnum" where
  "getNumeric row k idx =
     (case cellText row k idx of
        Inl err \<Rightarrow> Inl err
      | Inr text \<Rightarrow>
          (let numeric = numeric_chars (trim text)
           in Inr (if numeric = [] then Fin 0 else decimal_to_number numeric)))"

text \<open>
  \<open>for (const val of popVals) {
    const cleaned = String(val || '').replace(/[^\d.]/g, '');
    if (cleaned) return Number(cleaned); }\<close>
  and \<open>null\<close> after the loop or after a caught error.
\<close>

definition getTooltipNumber :: "row_view \<Rightarrow> nat \<Rightarrow> nat \<Rightarrow> jsnum option" where
  "getTooltipNumber row k idx =
     (case popVals row k idx of
        None \<Rightarrow> None
      | Some vals \<Rightarrow>
          (case find_first (\<lambda>cleaned. cleaned \<noteq> []) (map numeric_chars vals) of
             None \<Rightarrow> None
           | Some cleaned \<Rightarrow> Some (decimal_to_number cleaned)))"

text \<open>\<open>getCol(label)\<close>, called for the \<open>k\<close>-th metric.\<close>

definition getCol :: "row_view \<Rightarrow> (string \<times> nat) list \<Rightarrow> nat \<Rightarrow> string \<Rightarrow> js_error + jsnum" where
  "getCol row columnMap k label =
     (case map_of columnMap label of
        None \<Rightarrow>
          (if label = ''Headshot %'' then
             (case map_of columnMap ''Headshots'' of
                None \<Rightarrow> Inr (Fin 0)
              | Some hidx \<Rightarrow>
                  (case getTooltipNumber row k hidx of
                     None \<Rightarrow> Inr (Fin 0)
                   | Some tooltip \<Rightarrow> Inr tooltip))
           else Inr (Fin 0))
      | Some idx \<Rightarrow>
          (if label = ''Headshot %'' then
             (case getTooltipNumber row k idx of
                None \<Rightarrow> getNumeric row k idx
              | Some tooltip \<Rightarrow> Inr tooltip)
           else getNumeric row k idx))"

text \<open>
  The loop \<open>for (const label of labels) { stats[label] = await getCol(label); }\<close>;
  an exception of \<open>getCol\<close> leaves the function.
\<close>

fun readLabels ::
  "row_view \<Rightarrow> (string \<times> nat) list \<Rightarrow> nat \<Rightarrow> string list \<Rightarrow> pstats \<Rightarrow> js_error + pstats" where
  "readLabels row columnMap k [] st = Inr st"
| "readLabels row columnMap k (label # labels) st =
     (case getCol row columnMap k label of
        Inl err \<Rightarrow> Inl err
      | Inr v \<Rightarrow> readLabels row columnMap (Suc k) labels (st(label \<mapsto> v)))"

text \<open>
  \<open>if (labels.includes('Headshot %') && stats['Shots Hit'] > 0 && stats.Headshots >= 0) {
    stats['Headshot %'] = Number(((stats.Headshots / stats['Shots Hit']) * 100).toFixed(2)); }\<close>
\<close>

definition recomputeHeadshotPct :: "string list \<Rightarrow> pstats \<Rightarrow> pstats" where
  "recomputeHeadshotPct labels st =
     (if ''Headshot %'' \<in> set labels \<and> greater_zero (st ''Shots Hit'')
         \<and> at_least_zero (st ''Headshots'')
      then (case (st ''Headshots'', st ''Shots Hit'') of
              (Some headshots, Some shotsHit) \<Rightarrow>
                st(''Headshot %'' \<mapsto> toFixed2_Number (jmul (jdiv headshots shotsHit) (Fin 100)))
            | _ \<Rightarrow> st)
      else st)"

text \<open>
  \<open>const labels = metricLabels && metricLabels.length ? metricLabels : Object.keys(columnMap || {});\<close>
\<close>

definition labels_for :: "(string \<times> nat) list \<Rightarrow> string list option \<Rightarrow> string list" where
  "labels_for columnMap metricLabels =
     (case metricLabels of
        None \<Rightarrow> map fst columnMap
      | Some ms \<Rightarrow> if length ms \<noteq> 0 then ms else map fst columnMap)"

text \<open>
  \<open>extractStatsFromRow(rowLocatorFn, columnMap, page, metricLabels, options)\<close>: read
  every label, then recompute the headshot percentage.
\<close>

definition extractStatsFromRow ::
  "row_view \<Rightarrow> (string \<times> nat) list \<Rightarrow> string list option \<Rightarrow> js_error + pstats" where
  "extractStatsFromRow row columnMap metricLabels =
     (let labels = labels_for columnMap metricLabels
      in case readLabels row columnMap 0 labels Map.empty of
           Inl err \<Rightarrow> Inl err
         | Inr st \<Rightarrow> Inr (recomputeHeadshotPct labels st))"

section \<open>The scraper: the tab and player loops of scrapePlayers\<close>

text \<open>
  What the page does during one pass. \<open>tabReady tabKey\<close> is the outcome of the body
  of \<open>ensureTabReady\<close> when the tab is prepared for the first time: an exception, or
  the column map and the metrics. \<open>searchReset tabKey i\<close> is the exception, if any,
  of the search reset and the wait for the first row that the per-player loop makes
  before it reads player \<open>i\<close> on the tab. \<open>playerStats tabKey i\<close> is the outcome of
  \<open>getPlayerStats\<close> for player \<open>i\<close> on the tab: an exception, or the stats. Each of the
  three happens at most once per pass for given arguments, in either traversal.
\<close>

record page_pass =
  tabReady :: "string \<Rightarrow> js_error + ((string \<times> nat) list \<times> string list)"
  searchReset :: "string \<Rightarrow> nat \<Rightarrow> js_error option"
  playerStats :: "string \<Rightarrow> nat \<Rightarrow> js_error + pstats"

text \<open>The variables \<open>tabs\<close>, \<open>missing\<close>, \<open>missingIndexes\<close> and \<open>tabCache\<close>.\<close>

record scrape_state =
  s_tabs :: "string \<rightharpoonup> tabdata"
  s_missing :: "missing_entry list"
  s_missingIndexes :: "nat set"
  s_tabCache :: "string \<rightharpoonup> ((string \<times> nat) list \<times> string list)"

definition TAB_KEYS :: "string list" where
  "TAB_KEYS = [''pvp'', ''pve'', ''resources'', ''farming'', ''building'']"

text \<open>
  \<open>const tabsToScrape = Array.isArray(options.tabs) && options.tabs.length ? options.tabs : null;
  const tabEntries = Object.entries(TAB_DEFS).filter(([key]) => !tabsToScrape || tabsToScrape.includes(key));\<close>
\<close>

definition tabEntries :: "string list option \<Rightarrow> string list" where
  "tabEntries options_tabs =
     (let tabsToScrape = (case options_tabs of
                            None \<Rightarrow> None
                          | Some ts \<Rightarrow> if length ts \<noteq> 0 then Some ts else None)
      in filter (\<lambda>key. case tabsToScrape of None \<Rightarrow> True | Some ts \<Rightarrow> key \<in> set ts) TAB_KEYS)"

text \<open>\<open>const label = profile.displayName || profile.fallbackName;\<close>\<close>

definition label_of :: "jsobj \<Rightarrow> jsval" where
  "label_of profile = jor (fld profile ''displayName'') (fld profile ''fallbackName'')"

text \<open>
  \<open>missingIndexes.add(profileIndex);
  missing.push({ label, steamId: profile.steamId, steamUrl: profile.steamUrl,
    reason: err.message || 'Missing player stats' });\<close>
\<close>

definition missing_record :: "jsobj \<Rightarrow> js_error \<Rightarrow> missing_entry" where
  "missing_record profile err =
     \<lparr>m_label = label_of profile,
      m_steamId = fld profile ''steamId'',
      m_steamUrl = fld profile ''steamUrl'',
      m_reason = (if err_message err \<noteq> [] then err_message err else ''Missing player stats'')\<rparr>"

definition mark_missing :: "nat \<Rightarrow> jsobj \<Rightarrow> js_error \<Rightarrow> scrape_state \<Rightarrow> scrape_state" where
  "mark_missing profileIndex profile err st =
     st\<lparr>s_missingIndexes := insert profileIndex (s_missingIndexes st),
        s_missing := s_missing st @ [missing_record profile err]\<rparr>"

text \<open>\<open>scrapePvp && missingIndexes.has(profileIndex) && tabKey !== 'pvp'\<close>\<close>

definition skipped :: "bool \<Rightarrow> scrape_state \<Rightarrow> nat \<Rightarrow> string \<Rightarrow> bool" where
  "skipped scrapePvp st profileIndex tabKey =
     (scrapePvp \<and> profileIndex \<in> s_missingIndexes st \<and> tabKey \<noteq> ''pvp'')"

text \<open>
  \<open>ensureTabReady\<close>: \<open>if (tabCache[tabKey]) return tabCache[tabKey];\<close> and otherwise
  prepare the tab, then
  \<open>tabCache[tabKey] = { columnMap, metrics };
  tabs[tabKey] = { metrics, stats: {}, columnMap };\<close>
\<close>

definition ensureTabReady ::
  "page_pass \<Rightarrow> string \<Rightarrow> scrape_state \<Rightarrow>
   js_error + (((string \<times> nat) list \<times> string list) \<times> scrape_state)" where
  "ensureTabReady page tabKey st =
     (case s_tabCache st tabKey of
        Some cached \<Rightarrow> Inr (cached, st)
      | None \<Rightarrow>
          (case tabReady page tabKey of
             Inl err \<Rightarrow> Inl err
           | Inr (columnMap, metrics) \<Rightarrow>
               Inr ((columnMap, metrics),
                    st\<lparr>s_tabCache := (s_tabCache st)(tabKey \<mapsto> (columnMap, metrics)),
                       s_tabs := (s_tabs st)(tabKey \<mapsto>
                         \<lparr>t_metrics = Some metrics, t_stats = Some Map.empty,
                          t_columnMap = Some columnMap\<rparr>)\<rparr>)))"

text \<open>A loop whose body may throw: the first exception ends it.\<close>

fun foldE :: "('a \<Rightarrow> 's \<Rightarrow> js_error + 's) \<Rightarrow> 'a list \<Rightarrow> 's \<Rightarrow> js_error + 's" where
  "foldE f [] st = Inr st"
| "foldE f (x # xs) st = (case f x st of Inl err \<Rightarrow> Inl err | Inr st' \<Rightarrow> foldE f xs st')"

text \<open>
  \<open>tabs[tabKey].stats[label] = stats;\<close> The property key is \<open>String(label)\<close>. Reading
  \<open>.stats\<close> of a tab that was never stored would throw a \<open>TypeError\<close>; the
  assignment stands inside the \<open>try\<close> block.
\<close>

definition store_stats :: "string \<Rightarrow> jsval \<Rightarrow> pstats \<Rightarrow> scrape_state \<Rightarrow> js_error + scrape_state" where
  "store_stats tabKey label values st =
     (case s_tabs st tabKey of
        None \<Rightarrow> Inl \<lparr>err_name = ''TypeError'', err_message = ''Cannot read properties of undefined''\<rparr>
      | Some tabData \<Rightarrow>
          Inr (st\<lparr>s_tabs := (s_tabs st)(tabKey \<mapsto>
                 tabData\<lparr>t_stats := Some
                   ((case t_stats tabData of None \<Rightarrow> Map.empty | Some m \<Rightarrow> m)
                      (to_str label \<mapsto> values))\<rparr>)\<rparr>))"

text \<open>
  The body of the inner loop of the per-player traversal (one player, one tab). The
  \<open>catch\<close> takes the exceptions of \<open>getPlayerStats\<close> and of the assignment.
\<close>

definition perPlayer_step ::
  "page_pass \<Rightarrow> bool \<Rightarrow> nat \<Rightarrow> jsobj \<Rightarrow> string \<Rightarrow> scrape_state \<Rightarrow> js_error + scrape_state" where
  "perPlayer_step page scrapePvp profileIndex profile tabKey st =
     (if skipped scrapePvp st profileIndex tabKey then Inr st
      else case ensureTabReady page tabKey st of
             Inl err \<Rightarrow> Inl err
           | Inr (cached, st1) \<Rightarrow>
               (case searchReset page tabKey profileIndex of
                  Some err \<Rightarrow> Inl err
                | None \<Rightarrow>
                    (case (case playerStats page tabKey profileIndex of
                             Inl err \<Rightarrow> Inl err
                           | Inr values \<Rightarrow> store_stats tabKey (label_of profile) values st1) of
                       Inr st2 \<Rightarrow> Inr st2
                     | Inl err \<Rightarrow>
                         if tabKey = ''pvp''
                         then Inr (mark_missing profileIndex profile err st1)
                         else Inr st1)))"

definition perPlayer_loop ::
  "page_pass \<Rightarrow> bool \<Rightarrow> string list \<Rightarrow> jsobj list \<Rightarrow> scrape_state \<Rightarrow> js_error + scrape_state" where
  "perPlayer_loop page scrapePvp tabKeys profiles_in st =
     foldE (\<lambda>(profileIndex, profile).
              foldE (perPlayer_step page scrapePvp profileIndex profile) tabKeys)
           (enumerate 0 profiles_in) st"

text \<open>
  The body of the inner loop of the per-tab traversal; \<open>stats\<close> is the local object
  of the current tab. Nothing in it can throw.
\<close>

definition perTab_step ::
  "page_pass \<Rightarrow> bool \<Rightarrow> string \<Rightarrow> nat \<times> jsobj \<Rightarrow>
   (string \<rightharpoonup> pstats) \<times> scrape_state \<Rightarrow> (string \<rightharpoonup> pstats) \<times> scrape_state" where
  "perTab_step page scrapePvp tabKey entry acc =
     (case entry of (profileIndex, profile) \<Rightarrow>
      case acc of (stats_local, st) \<Rightarrow>
        if skipped scrapePvp st profileIndex tabKey then (stats_local, st)
        else (case playerStats page tabKey profileIndex of
                Inr values \<Rightarrow> (stats_local(to_str (label_of profile) \<mapsto> values), st)
              | Inl err \<Rightarrow>
                  if tabKey = ''pvp''
                  then (stats_local, mark_missing profileIndex profile err st)
                  else (stats_local, st)))"

definition perTab_tab ::
  "page_pass \<Rightarrow> bool \<Rightarrow> jsobj list \<Rightarrow> string \<Rightarrow> scrape_state \<Rightarrow> js_error + scrape_state" where
  "perTab_tab page scrapePvp profiles_in tabKey st =
     (case ensureTabReady page tabKey st of
        Inl err \<Rightarrow> Inl err
      | Inr ((columnMap, metrics), st1) \<Rightarrow>
          (case fold (perTab_step page scrapePvp tabKey) (enumerate 0 profiles_in)
                  (Map.empty, st1) of
             (stats_local, st2) \<Rightarrow>
               Inr (st2\<lparr>s_tabs := (s_tabs st2)(tabKey \<mapsto>
                      \<lparr>t_metrics = Some metrics, t_stats = Some stats_local,
                       t_columnMap = Some columnMap\<rparr>)\<rparr>)))"

definition perTab_loop ::
  "page_pass \<Rightarrow> bool \<Rightarrow> string list \<Rightarrow> jsobj list \<Rightarrow> scrape_state \<Rightarrow> js_error + scrape_state" where
  "perTab_loop page scrapePvp tabKeys profiles_in st =
     foldE (perTab_tab page scrapePvp profiles_in) tabKeys st"

text \<open>
  The result of the pass: the profiles with their \<open>missing\<close> flag, the tabs and the
  missing list.
\<close>

record scrape_result =
  sr_profiles :: "jsobj list"
  sr_tabs :: "string \<rightharpoonup> tabdata"
  sr_missing :: "missing_entry list"

definition profilesWithStatus :: "bool \<Rightarrow> nat set \<Rightarrow> jsobj list \<Rightarrow> jsobj list" where
  "profilesWithStatus scrapePvp missingIndexes profiles_in =
     map (\<lambda>(index, p).
            if \<not> scrapePvp then p(''missing'' \<mapsto> JBool False)
            else p(''missing'' \<mapsto> JBool (index \<in> missingIndexes)))
         (enumerate 0 profiles_in)"

text \<open>
  The part of \<open>scrapePlayers\<close> from \<open>tabsToScrape\<close> to the \<open>return\<close>, for the resolved
  profiles. \<open>strategy\<close> is \<open>options.strategy\<close>; only the value \<open>'perPlayer'\<close> selects
  the per-player traversal.
\<close>

definition scrapeTabs ::
  "page_pass \<Rightarrow> jsobj list \<Rightarrow> string list option \<Rightarrow> jsval \<Rightarrow> js_error + scrape_result" where
  "scrapeTabs page profiles_in options_tabs strategy =
     (let tabKeys = tabEntries options_tabs;
          scrapePvp = (''pvp'' \<in> set tabKeys);
          init = \<lparr>s_tabs = Map.empty, s_missing = [], s_missingIndexes = {},
                  s_tabCache = Map.empty\<rparr>
      in case (if strategy = JStr ''perPlayer''
               then perPlayer_loop page scrapePvp tabKeys profiles_in init
               else perTab_loop page scrapePvp tabKeys profiles_in init) of
           Inl err \<Rightarrow> Inl err
         | Inr st \<Rightarrow>
             Inr \<lparr>sr_profiles = profilesWithStatus scrapePvp (s_missingIndexes st) profiles_in,
                  sr_tabs = s_tabs st,
                  sr_missing = s_missing st\<rparr>)"

section \<open>Auxiliary notions and sample inputs\<close>

text \<open>The server names under which a store holds caches.\<close>

definition store_keys :: "store \<Rightarrow> string set" where
  "store_keys st = (case servers st of None \<Rightarrow> {} | Some m \<Rightarrow> dom m)"

text \<open>
  An action whose successive invocations end as the list says: a detached element,
  a timeout, or a value.
\<close>

definition detached :: js_error where
  "detached = \<lparr>err_name = ''Error'',
               err_message = ''locator.click: Element is not attached to the DOM''\<rparr>"

definition timed_out :: js_error where
  "timed_out = \<lparr>err_name = ''TimeoutError'', err_message = ''Timeout 10000ms exceeded.''\<rparr>"

definition scripted :: "(js_error + nat) list \<Rightarrow> nat \<Rightarrow> js_error + nat" where
  "scripted outcomes k =
     (if 1 \<le> k \<and> k \<le> length outcomes then outcomes ! (k - 1) else Inr 0)"

definition empty_store :: store where
  "empty_store = \<lparr>servers = Some Map.empty\<rparr>"

definition empty_cache :: cache where
  "empty_cache = \<lparr>c_serverName = JStr ''US Biweekly (Premium)'', c_profiles = Some [],
                   c_tabs = Some Map.empty, c_missing = Some [], c_serverInfo = None,
                   c_updatedAt = Some 1\<rparr>"

text \<open>The profiles of a cache and of a scrape result, \<open>[]\<close> when the field is absent.\<close>

definition cache_profiles :: "cache \<Rightarrow> jsobj list" where
  "cache_profiles c = (case c_profiles c of None \<Rightarrow> [] | Some ps \<Rightarrow> ps)"

definition result_profiles :: "playerResult \<Rightarrow> jsobj list" where
  "result_profiles r = (case r_profiles r of None \<Rightarrow> [] | Some ps \<Rightarrow> ps)"

text \<open>
  A cache entry that shares no identity with the incoming profiles: its steamId
  differs, as a string, from the steamId of each of them, and so does its steamUrl.
\<close>

definition unrelated :: "jsobj \<Rightarrow> jsobj list \<Rightarrow> bool" where
  "unrelated entry incoming =
     (\<forall>r \<in> set incoming.
        to_str (fld entry ''steamId'') \<noteq> to_str (fld r ''steamId'') \<and>
        to_str (fld entry ''steamUrl'') \<noteq> to_str (fld r ''steamUrl''))"

text \<open>The cache that a merge returned.\<close>

definition merged :: "merge_error + cache \<Rightarrow> cache" where
  "merged outcome =
     (case outcome of
        Inr c \<Rightarrow> c
      | Inl err \<Rightarrow> \<lparr>c_serverName = JUndefined, c_profiles = None, c_tabs = None,
                     c_missing = None, c_serverInfo = None, c_updatedAt = None\<rparr>)"

text \<open>A tab of a cache, and the stats and metrics of a tab, empty when absent.\<close>

definition cache_tab :: "cache \<Rightarrow> string \<Rightarrow> tabdata option" where
  "cache_tab c tabKey = (case c_tabs c of None \<Rightarrow> None | Some tm \<Rightarrow> tm tabKey)"

definition tab_stats :: "tabdata option \<Rightarrow> (string \<rightharpoonup> pstats)" where
  "tab_stats t = (case t of None \<Rightarrow> Map.empty
                  | Some td \<Rightarrow> (case t_stats td of None \<Rightarrow> Map.empty | Some st \<Rightarrow> st))"

definition tab_metrics :: "tabdata option \<Rightarrow> string list" where
  "tab_metrics t = (case t of None \<Rightarrow> []
                    | Some td \<Rightarrow> (case t_metrics td of None \<Rightarrow> [] | Some ms \<Rightarrow> ms))"

text \<open>A cache with two players and one tab, and a scrape result for the first player.\<close>

definition alice :: jsobj where
  "alice = [''steamId'' \<mapsto> JStr ''76561198000000001'',
            ''steamUrl'' \<mapsto> JStr ''https://steamcommunity.com/profiles/76561198000000001'',
            ''displayName'' \<mapsto> JStr ''Alice'']"

definition bob :: jsobj where
  "bob = [''steamId'' \<mapsto> JStr ''76561198000000002'',
          ''steamUrl'' \<mapsto> JStr ''https://steamcommunity.com/profiles/76561198000000002'',
          ''displayName'' \<mapsto> JStr ''Bob'']"

definition alice_scraped :: jsobj where
  "alice_scraped = [''steamId'' \<mapsto> JStr ''76561198000000001'',
            ''steamUrl'' \<mapsto> JStr ''https://steamcommunity.com/profiles/76561198000000001'',
            ''displayName'' \<mapsto> JStr ''Alice'',
            ''avatarUrl'' \<mapsto> JStr ''https://avatars.example/alice.jpg'',
            ''missing'' \<mapsto> JBool False]"

definition carol_missing :: missing_entry where
  "carol_missing = \<lparr>m_label = JStr ''Carol'', m_steamId = JStr ''76561198000000003'',
     m_steamUrl = JStr ''https://steamcommunity.com/profiles/76561198000000003'',
     m_reason = ''Could not find player row by SteamID/searchKey for Carol''\<rparr>"

definition sample_cache :: cache where
  "sample_cache =
     \<lparr>c_serverName = JStr ''US Monthly (Premium)'',
      c_profiles = Some [alice, bob],
      c_tabs = Some [''pvp'' \<mapsto>
         \<lparr>t_metrics = Some [''KDR''],
          t_stats = Some [''Alice'' \<mapsto> [''KDR'' \<mapsto> Fin 1], ''Bob'' \<mapsto> [''KDR'' \<mapsto> Fin 2]],
          t_columnMap = Some [(''KDR'', 1)]\<rparr>],
      c_missing = Some [],
      c_serverInfo = None,
      c_updatedAt = Some 1\<rparr>"

definition sample_result :: playerResult where
  "sample_result =
     \<lparr>r_serverName = JStr ''US Monthly (Premium)'',
      r_profiles = Some [alice_scraped],
      r_tabs = Some [(''pvp'',
         \<lparr>t_metrics = Some [''KDR'', ''PvP Kills''],
          t_stats = Some [''Alice'' \<mapsto> [''KDR'' \<mapsto> Fin 3, ''PvP Kills'' \<mapsto> Fin 9]],
          t_columnMap = Some [(''KDR'', 1), (''PvP Kills'', 2)]\<rparr>)],
      r_missing = Some [carol_missing],
      r_serverInfo = None\<rparr>"

text \<open>
  A profile that carries both identity fields, with a truthy value in one of them;
  every profile that \<open>scrapePlayers\<close> returns has both fields.
\<close>

definition identified :: "jsobj \<Rightarrow> bool" where
  "identified p =
     (has_key p ''steamId'' \<and> has_key p ''steamUrl'' \<and>
      (truthy (fld p ''steamId'') \<or> truthy (fld p ''steamUrl'')))"

text \<open>No two profiles of the list share a steamId or a steamUrl.\<close>

fun distinct_identities :: "jsobj list \<Rightarrow> bool" where
  "distinct_identities [] = True"
| "distinct_identities (p # ps) =
     ((\<forall>q \<in> set ps. \<not> same_identity p q) \<and> distinct_identities ps)"

definition result_tabs :: "playerResult \<Rightarrow> (string \<times> tabdata) list" where
  "result_tabs r = (case r_tabs r of None \<Rightarrow> [] | Some es \<Rightarrow> es)"

text \<open>A scrape result whose only profile has no steamId and no steamUrl.\<close>

definition dave :: jsobj where
  "dave = [''steamId'' \<mapsto> JNull, ''steamUrl'' \<mapsto> JUndefined,
           ''displayName'' \<mapsto> JStr ''Dave'']"

definition dave_result :: playerResult where
  "dave_result =
     \<lparr>r_serverName = JStr ''US Monthly (Premium)'', r_profiles = Some [dave],
      r_tabs = Some [], r_missing = Some [], r_serverInfo = None\<rparr>"






text \<open>
  A URL parser for the sample inputs: the path of an \<open>https\<close> URL that has neither a
  query nor a fragment.
\<close>

definition https_pathname :: "string \<Rightarrow> string option" where
  "https_pathname s =
     (if prefix ''https://'' s then Some (dropWhile (\<lambda>c. c \<noteq> CHR ''/'') (drop 8 s))
      else None)"

text \<open>
  The roster entry that \<open>normalizePlayer\<close> builds for the input \<open>abc\<close>, which is no
  URL and resolves to no steamId; and a player who has not been scraped yet.
\<close>

definition stray :: jsobj where
  "stray = [''steamUrl'' \<mapsto> JStr ''abc'', ''steamId'' \<mapsto> JNull,
            ''displayName'' \<mapsto> JNull, ''avatarUrl'' \<mapsto> JNull]"

definition carol :: jsobj where
  "carol = [''steamUrl'' \<mapsto> JStr ''https://steamcommunity.com/profiles/76561198000000003'',
            ''steamId'' \<mapsto> JStr ''76561198000000003'',
            ''displayName'' \<mapsto> JNull, ''avatarUrl'' \<mapsto> JNull]"

text \<open>The merged cache profiles that \<open>buildResponseFromCache\<close> starts from.\<close>

definition merged_for_roster :: "cache \<Rightarrow> jsobj list \<Rightarrow> jsobj list" where
  "merged_for_roster c players = mergeCachedProfiles (cache_profiles c) players"

text \<open>
  The fields that \<open>attachPlayerIds\<close> and the \<open>needsSteam64\<close> mark add to a profile;
  the other fields of the profile stay as they are.
\<close>

definition added_fields :: "string set" where
  "added_fields = {''playerId'', ''storedSteamUrl'', ''storedSteamId'', ''needsSteam64''}"

text \<open>
  A row of the PvP table with 200 shots hit and 50 headshots, whose tooltip shows
  37.5 %; the table has no column for the percentage.
\<close>

definition sample_row :: row_view where
  "sample_row =
     \<lparr>cellText = (\<lambda>k idx. Inr (if idx = 6 then ''200'' else if idx = 7 then '' 50 '' else '''')),
      popVals = (\<lambda>k idx. Some ['''', ''37.5 %''])\<rparr>"

definition sample_columns :: "(string \<times> nat) list" where
  "sample_columns = [(''Shots Hit'', 6), (''Headshots'', 7)]"

definition sample_labels :: "string list" where
  "sample_labels = [''Shots Hit'', ''Headshots'', ''Headshot %'']"

text \<open>
  A row with 3 shots hit and 1 headshot, and a row with 10 shots hit whose Headshots
  cell reads \<open>1.2.3\<close>, which is no number. The tooltip of both shows 40 %.
\<close>

definition thirds_row :: row_view where
  "thirds_row =
     \<lparr>cellText = (\<lambda>k idx. Inr (if idx = 6 then ''3'' else if idx = 7 then ''1'' else '''')),
      popVals = (\<lambda>k idx. Some [''40 %''])\<rparr>"

definition dotted_row :: row_view where
  "dotted_row =
     \<lparr>cellText = (\<lambda>k idx. Inr (if idx = 6 then ''10'' else if idx = 7 then ''1.2.3'' else '''')),
      popVals = (\<lambda>k idx. Some [''40 %''])\<rparr>"

text \<open>What a cell or a tooltip can be read as: no number, or a number that is not negative.\<close>

definition readable :: "jsnum \<Rightarrow> bool" where
  "readable v = (v = NaN \<or> at_least_zero (Some v))"

text \<open>
  The list \<open>ps\<close> absorbs \<open>r\<close>: the first profile that matches \<open>r\<close> already has all
  the fields of \<open>r\<close>, so that merging \<open>r\<close> changes nothing.
\<close>

definition absorbs :: "jsobj list \<Rightarrow> jsobj \<Rightarrow> bool" where
  "absorbs ps r = (\<exists>j. findIndex (same_identity r) ps = Some j \<and> ps ! j ++ r = ps ! j)"

subsection \<open>A pass of the scraper\<close>

text \<open>Player \<open>i\<close> was not read on the pvp tab: \<open>getPlayerStats\<close> threw.\<close>

definition failed_on_pvp :: "page_pass \<Rightarrow> nat \<Rightarrow> bool" where
  "failed_on_pvp page i = (case playerStats page ''pvp'' i of Inl err \<Rightarrow> True | Inr v \<Rightarrow> False)"

text \<open>
  The missing records of the players below \<open>k\<close> that failed on the pvp tab, one for
  each, in the order of the roster.
\<close>

definition missing_upto :: "page_pass \<Rightarrow> jsobj list \<Rightarrow> nat \<Rightarrow> missing_entry list" where
  "missing_upto page ps k =
     concat (map (\<lambda>i. case playerStats page ''pvp'' i of
                          Inl err \<Rightarrow> [missing_record (ps ! i) err]
                        | Inr v \<Rightarrow> [])
                 [0..<k])"

text \<open>
  Every entry of the stats \<open>m\<close> of tab \<open>t\<close> was read on that tab for a player that was
  found on the pvp tab, and is stored under the label of that player.
\<close>

definition stats_from_found ::
  "page_pass \<Rightarrow> jsobj list \<Rightarrow> string \<Rightarrow> (string \<rightharpoonup> pstats) \<Rightarrow> bool" where
  "stats_from_found page ps t m =
     (\<forall>key v. m key = Some v \<longrightarrow>
        (\<exists>j<length ps. \<not> failed_on_pvp page j \<and> to_str (label_of (ps ! j)) = key \<and>
           playerStats page t j = Inr v))"

text \<open>Whenever a tab is in \<open>tabCache\<close> it is in \<open>tabs\<close>.\<close>

definition tabs_ready :: "scrape_state \<Rightarrow> bool" where
  "tabs_ready st = (\<forall>t. s_tabCache st t \<noteq> None \<longrightarrow> s_tabs st t \<noteq> None)"

text \<open>
  In every tab other than pvp, the stats come from players found on the pvp tab.
\<close>

definition found_stats_only ::
  "page_pass \<Rightarrow> jsobj list \<Rightarrow> (string \<rightharpoonup> tabdata) \<Rightarrow> bool" where
  "found_stats_only page ps tabs_map =
     (\<forall>t td. t \<noteq> ''pvp'' \<and> tabs_map t = Some td \<longrightarrow>
        stats_from_found page ps t (tab_stats (Some td)))"

text \<open>
  The state of the pass once the pvp tab has been tried for the players below \<open>k\<close>.
\<close>

definition pass_invariant :: "page_pass \<Rightarrow> jsobj list \<Rightarrow> nat \<Rightarrow> scrape_state \<Rightarrow> bool" where
  "pass_invariant page ps k st =
     (tabs_ready st \<and> s_missing st = missing_upto page ps k \<and>
      s_missingIndexes st = {j. j < k \<and> failed_on_pvp page j} \<and>
      found_stats_only page ps (s_tabs st))"

text \<open>The variables of the pass before the loops start.\<close>

definition initial_state :: scrape_state where
  "initial_state = \<lparr>s_tabs = Map.empty, s_missing = [], s_missingIndexes = {},
                     s_tabCache = Map.empty\<rparr>"

text \<open>The result that a pass returned.\<close>

definition scraped :: "js_error + scrape_result \<Rightarrow> scrape_result" where
  "scraped outcome =
     (case outcome of
        Inr res \<Rightarrow> res
      | Inl err \<Rightarrow> \<lparr>sr_profiles = [], sr_tabs = Map.empty, sr_missing = []\<rparr>)"

text \<open>
  A page on which every tab can be prepared and the row of the second player is
  never found.
\<close>

definition row_not_found :: js_error where
  "row_not_found = \<lparr>err_name = ''Error'',
     err_message = ''Could not find player row by SteamID/searchKey for Bob''\<rparr>"

definition sample_page :: page_pass where
  "sample_page =
     \<lparr>tabReady = (\<lambda>tabKey. Inr ([(''KDR'', 1)], [''KDR''])),
      searchReset = (\<lambda>tabKey i. None),
      playerStats = (\<lambda>tabKey i. if i = 1 then Inl row_not_found
                                  else Inr [''KDR'' \<mapsto> Fin 1])\<rparr>"

section \<open>Verified properties: the retry envelope\<close>

lemma waitMs_default:
  "waitMs RETRY_BACKOFFS_MS k = (if k \<le> 1 then 250 else if k = 2 then 500 else 750)"
  by (auto simp: waitMs_def backoff_at_def RETRY_BACKOFFS_MS_def nth_Cons split: nat.splits)

text \<open>
  The trace of the loop from any point: it sleeps before each further attempt, by
  the schedule, and it never passes the last attempt.
\<close>

lemma retry_trace:
  "\<exists>m. run_sleeps (withDetachRetry_loop action n bs k c s) = s @ map (waitMs bs) [k..<k+m] \<and>
       run_calls (withDetachRetry_loop action n bs k c s) = (if k \<le> n then c + Suc m else c) \<and>
       (k \<le> n \<longrightarrow> k + m \<le> n)"
proof (induction action n bs k c s rule: withDetachRetry_loop.induct)
  case (1 action attempts backoffs attempt calls sleeps)
  show ?case
  proof (cases "attempt \<le> attempts")
    case False
    then show ?thesis
      by (subst withDetachRetry_loop.simps, subst withDetachRetry_loop.simps)
         (auto intro: exI[of _ 0])
  next
    case le: True
    show ?thesis
    proof (cases "action attempt")
      case (Inr v)
      with le show ?thesis
        by (subst withDetachRetry_loop.simps, subst withDetachRetry_loop.simps)
           (auto intro: exI[of _ 0])
    next
      case (Inl e)
      show ?thesis
      proof (cases "\<not> isRetryableDetachError e \<or> attempt = attempts")
        case True
        with le Inl show ?thesis
          by (subst withDetachRetry_loop.simps, subst withDetachRetry_loop.simps)
             (auto intro: exI[of _ 0])
      next
        case False
        with le Inl 1 obtain m where m:
          "run_sleeps (withDetachRetry_loop action attempts backoffs (Suc attempt) (Suc calls)
              (sleeps @ [waitMs backoffs attempt]))
            = (sleeps @ [waitMs backoffs attempt]) @
              map (waitMs backoffs) [Suc attempt..<Suc attempt+m]"
          "run_calls (withDetachRetry_loop action attempts backoffs (Suc attempt) (Suc calls)
              (sleeps @ [waitMs backoffs attempt]))
            = Suc calls + Suc m"
          "Suc attempt + m \<le> attempts"
          by (auto split: if_splits)
        have "[attempt..<attempt + Suc m] = attempt # [Suc attempt..<Suc attempt + m]"
          by (simp add: upt_conv_Cons)
        with m False le Inl show ?thesis
          by (subst withDetachRetry_loop.simps, subst withDetachRetry_loop.simps)
             (auto intro!: exI[of _ "Suc m"] simp del: upt_Suc)
      qed
    qed
  qed
qed

lemma retry_step_ok:
  "k \<le> n \<Longrightarrow> action k = Inr v \<Longrightarrow>
   withDetachRetry_loop action n bs k c s =
     \<lparr>run_end = Returned v, run_calls = Suc c, run_sleeps = s\<rparr>"
  by (subst withDetachRetry_loop.simps) simp

lemma retry_step_throw:
  "k \<le> n \<Longrightarrow> action k = Inl e \<Longrightarrow> \<not> isRetryableDetachError e \<or> k = n \<Longrightarrow>
   withDetachRetry_loop action n bs k c s =
     \<lparr>run_end = Threw e, run_calls = Suc c, run_sleeps = s\<rparr>"
  by (subst withDetachRetry_loop.simps) auto

lemma retry_step_again:
  "k < n \<Longrightarrow> transient_failure action k \<Longrightarrow>
   withDetachRetry_loop action n bs k c s =
     withDetachRetry_loop action n bs (Suc k) (Suc c) (s @ [waitMs bs k])"
  by (subst withDetachRetry_loop.simps) (auto simp: transient_failure_def split: sum.splits)

text \<open>
  Claim C7. The envelope invokes the action at most three times. A first attempt
  that succeeds or fails with a non-transient error ends the call at once. A
  transient failure of the first attempt is followed by a sleep of 250 ms and a
  second attempt, a transient failure of the second by a sleep of 500 ms and a third
  attempt. Success of the third attempt after two transient failures is the result of
  the call; an error of the third attempt, transient or not, is thrown; a
  non-transient error of any attempt is thrown with no further attempt and no further
  sleep. With more attempts allowed, the sleeps are 250, 500 and then 750 ms each.
\<close>

theorem withDetachRetry_envelope:
  fixes action :: "nat \<Rightarrow> js_error + 'a"
  shows
  "run_calls (withDetachRetry action) \<le> 3
   \<and> (\<forall>v. action 1 = Inr v \<longrightarrow>
         withDetachRetry action = \<lparr>run_end = Returned v, run_calls = 1, run_sleeps = []\<rparr>)
   \<and> (\<forall>e. action 1 = Inl e \<and> \<not> isRetryableDetachError e \<longrightarrow>
         withDetachRetry action = \<lparr>run_end = Threw e, run_calls = 1, run_sleeps = []\<rparr>)
   \<and> (\<forall>v. transient_failure action 1 \<and> action 2 = Inr v \<longrightarrow>
         withDetachRetry action = \<lparr>run_end = Returned v, run_calls = 2, run_sleeps = [250]\<rparr>)
   \<and> (\<forall>e. transient_failure action 1 \<and> action 2 = Inl e \<and> \<not> isRetryableDetachError e \<longrightarrow>
         withDetachRetry action = \<lparr>run_end = Threw e, run_calls = 2, run_sleeps = [250]\<rparr>)
   \<and> (\<forall>v. transient_failure action 1 \<and> transient_failure action 2 \<and> action 3 = Inr v \<longrightarrow>
         withDetachRetry action =
           \<lparr>run_end = Returned v, run_calls = 3, run_sleeps = [250, 500]\<rparr>)
   \<and> (\<forall>e. transient_failure action 1 \<and> transient_failure action 2 \<and> action 3 = Inl e \<longrightarrow>
         withDetachRetry action =
           \<lparr>run_end = Threw e, run_calls = 3, run_sleeps = [250, 500]\<rparr>)
   \<and> (\<forall>n. \<exists>m. run_sleeps (withDetachRetry_opts action n RETRY_BACKOFFS_MS) =
           map (\<lambda>k. if k = 1 then 250 else if k = 2 then 500 else 750) [1..<1 + m]
           \<and> run_calls (withDetachRetry_opts action n RETRY_BACKOFFS_MS) \<le> n)"
proof -
  have tr: "\<exists>m. run_sleeps (withDetachRetry_loop action n RETRY_BACKOFFS_MS 1 0 []) =
              [] @ map (waitMs RETRY_BACKOFFS_MS) [1..<1 + m] \<and>
            run_calls (withDetachRetry_loop action n RETRY_BACKOFFS_MS 1 0 []) =
              (if 1 \<le> n then 0 + Suc m else 0) \<and> (1 \<le> n \<longrightarrow> 1 + m \<le> n)" for n
    by (rule retry_trace)
  have p0: "run_calls (withDetachRetry action) \<le> 3"
    using tr[of 3] by (auto simp: withDetachRetry_def withDetachRetry_opts_def)
  have w: "waitMs RETRY_BACKOFFS_MS k = (if k = 1 then 250 else if k = 2 then 500 else 750)"
    if "1 \<le> k" for k
    using that by (simp add: waitMs_default)
  have p8: "\<exists>m. run_sleeps (withDetachRetry_opts action n RETRY_BACKOFFS_MS) =
           map (\<lambda>k. if k = 1 then 250 else if k = 2 then 500 else 750) [1..<1 + m]
           \<and> run_calls (withDetachRetry_opts action n RETRY_BACKOFFS_MS) \<le> n" for n
  proof -
    from tr[of n] obtain m where m:
      "run_sleeps (withDetachRetry_loop action n RETRY_BACKOFFS_MS 1 0 []) =
         map (waitMs RETRY_BACKOFFS_MS) [1..<1 + m]"
      "run_calls (withDetachRetry_loop action n RETRY_BACKOFFS_MS 1 0 []) =
              (if 1 \<le> n then 0 + Suc m else 0)" "1 \<le> n \<longrightarrow> 1 + m \<le> n"
      by auto
    have "map (waitMs RETRY_BACKOFFS_MS) [1..<1 + m] =
          map (\<lambda>k. if k = 1 then 250 else if k = 2 then 500 else 750) [1..<1 + m]"
      by (rule map_cong) (auto simp: w)
    with m show ?thesis
      unfolding withDetachRetry_opts_def by (intro exI[of _ m]) auto
  qed
  have p1: "withDetachRetry action = \<lparr>run_end = Returned v, run_calls = 1, run_sleeps = []\<rparr>"
    if "action 1 = Inr v" for v
    using that by (simp add: withDetachRetry_def withDetachRetry_opts_def retry_step_ok)
  have p2: "withDetachRetry action = \<lparr>run_end = Threw e, run_calls = 1, run_sleeps = []\<rparr>"
    if "action 1 = Inl e" "\<not> isRetryableDetachError e" for e
    using that by (simp add: withDetachRetry_def withDetachRetry_opts_def retry_step_throw)
  have s1: "withDetachRetry action = withDetachRetry_loop action 3 RETRY_BACKOFFS_MS 2 1 [250]"
    if "transient_failure action 1"
    using that retry_step_again[of 1 3 action RETRY_BACKOFFS_MS 0 "[]"]
    by (simp add: withDetachRetry_def withDetachRetry_opts_def waitMs_default numeral_2_eq_2)
  have s2: "withDetachRetry action =
            withDetachRetry_loop action 3 RETRY_BACKOFFS_MS 3 2 [250, 500]"
    if "transient_failure action 1" "transient_failure action 2"
    using that s1 retry_step_again[of 2 3 action RETRY_BACKOFFS_MS 1 "[250]"]
    by (simp add: waitMs_default numeral_3_eq_3 numeral_2_eq_2)
  have p3: "withDetachRetry action = \<lparr>run_end = Returned v, run_calls = 2, run_sleeps = [250]\<rparr>"
    if "transient_failure action 1" "action 2 = Inr v" for v
    using that s1 by (simp add: retry_step_ok)
  have p4: "withDetachRetry action = \<lparr>run_end = Threw e, run_calls = 2, run_sleeps = [250]\<rparr>"
    if "transient_failure action 1" "action 2 = Inl e" "\<not> isRetryableDetachError e" for e
    using that s1 by (simp add: retry_step_throw)
  have p5: "withDetachRetry action =
            \<lparr>run_end = Returned v, run_calls = 3, run_sleeps = [250, 500]\<rparr>"
    if "transient_failure action 1" "transient_failure action 2" "action 3 = Inr v" for v
    using that s2 by (simp add: retry_step_ok)
  have p6: "withDetachRetry action =
            \<lparr>run_end = Threw e, run_calls = 3, run_sleeps = [250, 500]\<rparr>"
    if "transient_failure action 1" "transient_failure action 2" "action 3 = Inl e" for e
    using that s2 by (simp add: retry_step_throw)
  show ?thesis
    using p0 p1 p2 p3 p4 p5 p6 p8 by blast
qed

lemma detached_first_transient: "transient_failure (scripted (Inl detached # xs)) 1"
  by (simp add: transient_failure_def scripted_def detached_def isRetryableDetachError_def)

lemma detached_second_transient: "transient_failure (scripted (x # Inl detached # xs)) 2"
  by (simp add: transient_failure_def scripted_def detached_def isRetryableDetachError_def)

lemma timed_out_not_transient: "\<not> isRetryableDetachError timed_out"
  by (simp add: timed_out_def isRetryableDetachError_def)

theorem withDetachRetry_envelope_witness:
  "(scripted [Inr 7] 1 = Inr 7 \<and>
    withDetachRetry (scripted [Inr 7]) =
      \<lparr>run_end = Returned 7, run_calls = 1, run_sleeps = []\<rparr>)
   \<and> (scripted [Inl timed_out] 1 = Inl timed_out \<and> \<not> isRetryableDetachError timed_out \<and>
      withDetachRetry (scripted [Inl timed_out]) =
        \<lparr>run_end = Threw timed_out, run_calls = 1, run_sleeps = []\<rparr>)
   \<and> (transient_failure (scripted [Inl detached, Inr 7]) 1 \<and>
      scripted [Inl detached, Inr 7] 2 = Inr 7 \<and>
      withDetachRetry (scripted [Inl detached, Inr 7]) =
        \<lparr>run_end = Returned 7, run_calls = 2, run_sleeps = [250]\<rparr>)
   \<and> (transient_failure (scripted [Inl detached, Inl timed_out]) 1 \<and>
      scripted [Inl detached, Inl timed_out] 2 = Inl timed_out \<and>
      withDetachRetry (scripted [Inl detached, Inl timed_out]) =
        \<lparr>run_end = Threw timed_out, run_calls = 2, run_sleeps = [250]\<rparr>)
   \<and> (transient_failure (scripted [Inl detached, Inl detached, Inr 7]) 1 \<and>
      transient_failure (scripted [Inl detached, Inl detached, Inr 7]) 2 \<and>
      scripted [Inl detached, Inl detached, Inr 7] 3 = Inr 7 \<and>
      withDetachRetry (scripted [Inl detached, Inl detached, Inr 7]) =
        \<lparr>run_end = Returned 7, run_calls = 3, run_sleeps = [250, 500]\<rparr>)
   \<and> (transient_failure (scripted [Inl detached, Inl detached, Inl detached]) 1 \<and>
      transient_failure (scripted [Inl detached, Inl detached, Inl detached]) 2 \<and>
      scripted [Inl detached, Inl detached, Inl detached] 3 = Inl detached \<and>
      withDetachRetry (scripted [Inl detached, Inl detached, Inl detached]) =
        \<lparr>run_end = Threw detached, run_calls = 3, run_sleeps = [250, 500]\<rparr>)"
proof -
  have e1: "scripted [Inr 7] 1 = Inr 7" by (simp add: scripted_def)
  have e2: "scripted [Inl timed_out] 1 = Inl timed_out" by (simp add: scripted_def)
  have e3: "scripted [Inl detached, Inr 7] 2 = Inr 7" by (simp add: scripted_def)
  have e4: "scripted [Inl detached, Inl timed_out] 2 = Inl timed_out" by (simp add: scripted_def)
  have e5: "scripted [Inl detached, Inl detached, Inr 7] 3 = Inr 7" by (simp add: scripted_def)
  have e6: "scripted [Inl detached, Inl detached, Inl detached] 3 = Inl detached"
    by (simp add: scripted_def)
  have w1: "withDetachRetry (scripted [Inr 7]) =
      \<lparr>run_end = Returned 7, run_calls = 1, run_sleeps = []\<rparr>"
    using withDetachRetry_envelope[of "scripted [Inr 7]"] e1 by blast
  have w2: "withDetachRetry (scripted [Inl timed_out]) =
        \<lparr>run_end = Threw timed_out, run_calls = 1, run_sleeps = []\<rparr>"
    using withDetachRetry_envelope[of "scripted [Inl timed_out]"] e2 timed_out_not_transient by blast
  have w3: "withDetachRetry (scripted [Inl detached, Inr 7]) =
        \<lparr>run_end = Returned 7, run_calls = 2, run_sleeps = [250]\<rparr>"
    using withDetachRetry_envelope[of "scripted [Inl detached, Inr 7]"] e3 detached_first_transient by blast
  have w4: "withDetachRetry (scripted [Inl detached, Inl timed_out]) =
        \<lparr>run_end = Threw timed_out, run_calls = 2, run_sleeps = [250]\<rparr>"
    using withDetachRetry_envelope[of "scripted [Inl detached, Inl timed_out]"] e4 detached_first_transient timed_out_not_transient
    by blast
  have w5: "withDetachRetry (scripted [Inl detached, Inl detached, Inr 7]) =
        \<lparr>run_end = Returned 7, run_calls = 3, run_sleeps = [250, 500]\<rparr>"
    using withDetachRetry_envelope[of "scripted [Inl detached, Inl detached, Inr 7]"]
      e5 detached_first_transient detached_second_transient by blast
  have w6: "withDetachRetry (scripted [Inl detached, Inl detached, Inl detached]) =
        \<lparr>run_end = Threw detached, run_calls = 3, run_sleeps = [250, 500]\<rparr>"
    using withDetachRetry_envelope[of "scripted [Inl detached, Inl detached, Inl detached]"]
      e6 detached_first_transient detached_second_transient by blast
  show ?thesis
    using e1 e2 e3 e4 e5 e6 timed_out_not_transient detached_first_transient detached_second_transient w1 w2 w3 w4 w5 w6 by simp
qed

section \<open>Verified properties: server names\<close>

lemma lower_names_differ:
  "toLowerCase ''US Monthly (Premium)'' \<noteq> toLowerCase ''US Biweekly (Premium)''"
  by (simp add: toLowerCase_def lower_char_def)

lemma normalizeServerName_cases:
  "normalizeServerName x =
     (if \<not> truthy x then ''US Monthly (Premium)''
      else if toLowerCase (trim (to_str x)) = toLowerCase ''US Monthly (Premium)''
        then ''US Monthly (Premium)''
      else if toLowerCase (trim (to_str x)) = toLowerCase ''US Biweekly (Premium)''
        then ''US Biweekly (Premium)''
      else ''US Monthly (Premium)'')"
  unfolding normalizeServerName_def SERVER_NAME_def ALLOWED_SERVERS_def Let_def
  by (simp add: eq_commute[of "toLowerCase (trim (to_str x))"])

lemma store_keys_setServerCache:
  "store_keys (setServerCache st name c) = insert name (store_keys st)"
  by (auto simp: store_keys_def setServerCache_def split: option.splits)

lemma store_keys_loadCacheStore:
  "store_keys (loadCacheStore raw) \<subseteq>
     (case raw of RawStore s \<Rightarrow> store_keys s | _ \<Rightarrow> {normalizeServerName (JStr [])} \<union> set ALLOWED_SERVERS)"
  by (auto simp: store_keys_def loadCacheStore_def normalizeServerName_cases ALLOWED_SERVERS_def
      split: raw_document.splits option.splits if_splits)

lemma store_keys_removeFromStore:
  "store_keys (removeFromStore clock st removed) = store_keys st"
  by (auto simp: store_keys_def removeFromStore_def dom_def split: option.splits)

text \<open>White space at both ends is stripped, and Latin-1 capitals are lowered.\<close>

lemma trim_spaces:
  "trim [CHR 0x09, CHR 0x0A, CHR 0x0B, CHR 0x0C, CHR 0x0D, CHR 0x20, CHR 0xA0, CHR ''a'', CHR 0xA0, CHR ''b'', CHR 0x20, CHR 0xA0, CHR 0x0A] = [CHR ''a'', CHR 0xA0, CHR ''b'']"
  by code_simp

lemma lower_latin1:
  "toLowerCase [CHR ''A'', CHR ''Z'', CHR ''@'', CHR 0x5B, CHR 0xC0, CHR 0xD6, CHR 0xD7, CHR 0xD8, CHR 0xDE, CHR 0xDF, CHR 0xFF, CHR 0xB5]
     = [CHR ''a'', CHR ''z'', CHR ''@'', CHR 0x5B, CHR 0xE0, CHR 0xF6, CHR 0xD7, CHR 0xF8, CHR 0xFE, CHR 0xDF, CHR 0xFF, CHR 0xB5]"
  by code_simp

text \<open>
  Claim C10. \<open>normalizeServerName\<close> returns one of the two allowed names. It returns
  the default name for a falsy argument, the allowed name that equals the trimmed
  argument up to the case of letters when there is one, and the default name
  otherwise. The routes read and write the store under the normalised name, so a
  store whose keys are allowed names keeps such keys when a route writes to it.
\<close>

theorem normalizeServerName_allowed:
  "normalizeServerName x \<in> {''US Monthly (Premium)'', ''US Biweekly (Premium)''}
   \<and> (\<not> truthy x \<longrightarrow> normalizeServerName x = ''US Monthly (Premium)'')
   \<and> (\<forall>name \<in> set ALLOWED_SERVERS.
         truthy x \<and> toLowerCase (trim (to_str x)) = toLowerCase name
         \<longrightarrow> normalizeServerName x = name)
   \<and> (truthy x \<and> (\<forall>name \<in> set ALLOWED_SERVERS.
                     toLowerCase (trim (to_str x)) \<noteq> toLowerCase name)
         \<longrightarrow> normalizeServerName x = ''US Monthly (Premium)'')
   \<and> (\<exists>name \<in> set ALLOWED_SERVERS. route_getServerCache st x = getServerCache st name)
   \<and> (\<exists>name \<in> set ALLOWED_SERVERS. route_setServerCache s x c = setServerCache s name c)
   \<and> (store_keys s \<subseteq> set ALLOWED_SERVERS
         \<longrightarrow> store_keys (route_setServerCache s x c) \<subseteq> set ALLOWED_SERVERS)"
proof -
  have r: "normalizeServerName x \<in> set ALLOWED_SERVERS"
    by (simp add: normalizeServerName_cases ALLOWED_SERVERS_def)
  have a: "normalizeServerName x \<in> {''US Monthly (Premium)'', ''US Biweekly (Premium)''}"
    by (simp add: normalizeServerName_cases)
  have b: "\<not> truthy x \<longrightarrow> normalizeServerName x = ''US Monthly (Premium)''"
    by (simp add: normalizeServerName_cases)
  have c: "\<forall>name \<in> set ALLOWED_SERVERS.
         truthy x \<and> toLowerCase (trim (to_str x)) = toLowerCase name
         \<longrightarrow> normalizeServerName x = name"
    using lower_names_differ
    by (simp add: normalizeServerName_cases ALLOWED_SERVERS_def)
  have d: "truthy x \<and> (\<forall>name \<in> set ALLOWED_SERVERS.
                     toLowerCase (trim (to_str x)) \<noteq> toLowerCase name)
         \<longrightarrow> normalizeServerName x = ''US Monthly (Premium)''"
    by (simp add: normalizeServerName_cases ALLOWED_SERVERS_def)
  have e: "\<exists>name \<in> set ALLOWED_SERVERS. route_getServerCache st x = getServerCache st name"
    using r unfolding route_getServerCache_def by blast
  have f: "\<exists>name \<in> set ALLOWED_SERVERS. route_setServerCache s x c = setServerCache s name c"
    using r unfolding route_setServerCache_def by blast
  have g: "store_keys s \<subseteq> set ALLOWED_SERVERS
         \<longrightarrow> store_keys (route_setServerCache s x c) \<subseteq> set ALLOWED_SERVERS"
    using r by (simp add: route_setServerCache_def store_keys_setServerCache)
  from a b c d e f g show ?thesis by blast
qed

theorem normalizeServerName_allowed_witness:
  "(\<not> truthy JNull \<and> normalizeServerName JNull = ''US Monthly (Premium)'')
   \<and> (''US Biweekly (Premium)'' \<in> set ALLOWED_SERVERS \<and>
      truthy (JStr ''  us BIWEEKLY (premium) '') \<and>
      toLowerCase (trim (to_str (JStr ''  us BIWEEKLY (premium) ''))) =
        toLowerCase ''US Biweekly (Premium)'' \<and>
      normalizeServerName (JStr ''  us BIWEEKLY (premium) '') = ''US Biweekly (Premium)'')
   \<and> (truthy (JStr (CHR 0xA0 # ''US Biweekly (Premium)'')) \<and>
      toLowerCase (trim (to_str (JStr (CHR 0xA0 # ''US Biweekly (Premium)'')))) =
        toLowerCase ''US Biweekly (Premium)'' \<and>
      normalizeServerName (JStr (CHR 0xA0 # ''US Biweekly (Premium)'')) = ''US Biweekly (Premium)'')
   \<and> (truthy (JStr ''EU Main'') \<and>
      toLowerCase (trim (to_str (JStr ''EU Main''))) \<noteq> toLowerCase ''US Monthly (Premium)'' \<and>
      toLowerCase (trim (to_str (JStr ''EU Main''))) \<noteq> toLowerCase ''US Biweekly (Premium)'' \<and>
      ALLOWED_SERVERS = [''US Monthly (Premium)'', ''US Biweekly (Premium)''] \<and>
      normalizeServerName (JStr ''EU Main'') = ''US Monthly (Premium)'')
   \<and> (store_keys empty_store \<subseteq> set ALLOWED_SERVERS \<and>
      store_keys (route_setServerCache empty_store (JStr ''EU Main'') empty_cache)
        \<subseteq> set ALLOWED_SERVERS)"
proof -
  have h1: "\<not> truthy JNull" by simp
  have h2: "''US Biweekly (Premium)'' \<in> set ALLOWED_SERVERS"
    by (simp add: ALLOWED_SERVERS_def)
  have h3: "truthy (JStr ''  us BIWEEKLY (premium) '')" by simp
  have h4: "toLowerCase (trim (to_str (JStr ''  us BIWEEKLY (premium) ''))) =
        toLowerCase ''US Biweekly (Premium)''"
    by code_simp
  have n3: "truthy (JStr (CHR 0xA0 # ''US Biweekly (Premium)''))" by simp
  have n4: "toLowerCase (trim (to_str (JStr (CHR 0xA0 # ''US Biweekly (Premium)'')))) =
        toLowerCase ''US Biweekly (Premium)''"
    by code_simp
  have h5: "truthy (JStr ''EU Main'')" by simp
  have h6: "\<forall>name \<in> set ALLOWED_SERVERS.
         toLowerCase (trim (to_str (JStr ''EU Main''))) \<noteq> toLowerCase name"
    unfolding ALLOWED_SERVERS_def by code_simp
  have h7: "store_keys empty_store \<subseteq> set ALLOWED_SERVERS"
    by (simp add: store_keys_def empty_store_def)
  have w1: "normalizeServerName JNull = ''US Monthly (Premium)''"
    using normalizeServerName_allowed[of JNull] h1 by blast
  have w2: "normalizeServerName (JStr ''  us BIWEEKLY (premium) '') = ''US Biweekly (Premium)''"
    using normalizeServerName_allowed[of "JStr ''  us BIWEEKLY (premium) ''"] h2 h3 h4 by blast
  have w2n: "normalizeServerName (JStr (CHR 0xA0 # ''US Biweekly (Premium)'')) = ''US Biweekly (Premium)''"
    using normalizeServerName_allowed[of "JStr (CHR 0xA0 # ''US Biweekly (Premium)'')"] h2 n3 n4
    by blast
  have w3: "normalizeServerName (JStr ''EU Main'') = ''US Monthly (Premium)''"
    using normalizeServerName_allowed[of "JStr ''EU Main''"] h5 h6 by blast
  have w4: "store_keys (route_setServerCache empty_store (JStr ''EU Main'') empty_cache)
        \<subseteq> set ALLOWED_SERVERS"
    using normalizeServerName_allowed[of "JStr ''EU Main''" _ empty_store empty_cache] h7
    by blast
  show ?thesis using h1 h2 h3 h4 n3 n4 h5 h6 h7 w1 w2 w2n w3 w4 by (simp add: ALLOWED_SERVERS_def)
qed

section \<open>Verified properties: folding a scrape result into the cache\<close>

lemma findIndex_Some:
  "findIndex p xs = Some j \<Longrightarrow> j < length xs \<and> p (xs ! j) \<and> (\<forall>i<j. \<not> p (xs ! i))"
proof (induction xs arbitrary: j)
  case Nil
  then show ?case by simp
next
  case (Cons x xs)
  show ?case
  proof (cases "p x")
    case True
    with Cons.prems show ?thesis by simp
  next
    case False
    with Cons.prems obtain j' where j': "findIndex p xs = Some j'" "j = Suc j'"
      by auto
    from Cons.IH[OF j'(1)] False j'(2) show ?thesis
      by (auto simp: nth_Cons split: nat.splits)
  qed
qed

lemma findIndex_None: "findIndex p xs = None \<longleftrightarrow> (\<forall>x \<in> set xs. \<not> p x)"
  by (induction xs) auto

lemma findIndex_first:
  "j < length xs \<Longrightarrow> p (xs ! j) \<Longrightarrow> (\<forall>i<j. \<not> p (xs ! i)) \<Longrightarrow> findIndex p xs = Some j"
proof (induction xs arbitrary: j)
  case Nil
  then show ?case by simp
next
  case (Cons x xs)
  show ?case
  proof (cases j)
    case 0
    with Cons.prems show ?thesis by simp
  next
    case (Suc j')
    with Cons.prems have "\<not> p x" by auto
    moreover have "findIndex p xs = Some j'"
      using Cons.prems Suc by (intro Cons.IH) auto
    ultimately show ?thesis using Suc by simp
  qed
qed

lemma mergeProfile_keeps:
  assumes "i < length ps" and "\<not> same_identity r (ps ! i)"
  shows "i < length (mergeProfile r ps) \<and> mergeProfile r ps ! i = ps ! i"
proof (cases "findIndex (same_identity r) ps")
  case None
  with assms show ?thesis by (simp add: mergeProfile_def nth_append)
next
  case (Some j)
  from findIndex_Some[OF Some] assms have "j \<noteq> i" by auto
  with Some assms show ?thesis by (simp add: mergeProfile_def)
qed

lemma mergeProfiles_keeps:
  assumes "i < length ps" and "\<forall>r \<in> set rs. \<not> same_identity r (ps ! i)"
  shows "i < length (mergeProfiles ps rs) \<and> mergeProfiles ps rs ! i = ps ! i"
  using assms unfolding mergeProfiles_def
proof (induction rs arbitrary: ps)
  case Nil
  then show ?case by simp
next
  case (Cons r rs)
  from Cons.prems have k: "i < length (mergeProfile r ps)" "mergeProfile r ps ! i = ps ! i"
    using mergeProfile_keeps[of i ps r] by auto
  with Cons.prems have "\<forall>r' \<in> set rs. \<not> same_identity r' (mergeProfile r ps ! i)"
    by simp
  from Cons.IH[OF k(1) this] k(2) show ?case by simp
qed

lemma unrelated_no_match:
  "unrelated entry incoming \<Longrightarrow> r \<in> set incoming \<Longrightarrow> \<not> same_identity r entry"
  by (auto simp: unrelated_def same_identity_def)

lemma mergePlayerStats_profiles:
  "mergePlayerStats now cache r = Inr c' \<Longrightarrow>
   c_profiles c' = Some (mergeProfiles
      (case cache of None \<Rightarrow> [] | Some c \<Rightarrow> cache_profiles c) (result_profiles r))"
  by (auto simp: mergePlayerStats_def Let_def cache_profiles_def result_profiles_def
      split: option.splits if_splits)

lemma mergePlayerStats_returns:
  "cache = None \<or> (\<exists>c. cache = Some c \<and> c_tabs c \<noteq> None) \<or> r_tabs r = None \<or> r_tabs r = Some []
   \<Longrightarrow> \<exists>c'. mergePlayerStats now cache r = Inr c'"
  by (auto simp: mergePlayerStats_def Let_def split: option.splits)

text \<open>
  Claim C1. When the merge returns, every profile of the cache whose steamId differs,
  as a string, from the steamId of every incoming profile and whose steamUrl differs
  from the steamUrl of every incoming profile is found in the merged profiles at the
  position it had, unchanged. (The merge returns unless the cache has no tabs while
  the result has some.)
\<close>

theorem mergePlayerStats_keeps_unrelated:
  assumes "mergePlayerStats now (Some c) r = Inr c'"
    and "i < length (cache_profiles c)"
    and "unrelated (cache_profiles c ! i) (result_profiles r)"
  shows "i < length (cache_profiles c') \<and> cache_profiles c' ! i = cache_profiles c ! i
         \<and> cache_profiles c ! i \<in> set (cache_profiles c')"
proof -
  from mergePlayerStats_profiles[OF assms(1)]
  have p: "cache_profiles c' = mergeProfiles (cache_profiles c) (result_profiles r)"
    by (simp add: cache_profiles_def)
  have "\<forall>x \<in> set (result_profiles r). \<not> same_identity x (cache_profiles c ! i)"
    using unrelated_no_match[OF assms(3)] by blast
  from mergeProfiles_keeps[OF assms(2) this] p
  have k: "i < length (cache_profiles c')" "cache_profiles c' ! i = cache_profiles c ! i"
    by auto
  then have "cache_profiles c ! i \<in> set (cache_profiles c')"
    by (metis nth_mem)
  with k show ?thesis by simp
qed

lemma mergeTabEntry_pair:
  "mergeTabEntry (tabKey, tabData) tm = tm(tabKey \<mapsto> mergeTab (tm tabKey) tabData)"
  by (simp add: mergeTabEntry_def)

lemma fold_mergeTabEntry_other:
  "tabKey \<notin> fst ` set entries \<Longrightarrow> fold mergeTabEntry entries tm tabKey = tm tabKey"
  by (induction entries arbitrary: tm) (auto simp: mergeTabEntry_pair)

lemma fold_mergeTabEntry_key:
  "distinct (map fst entries) \<Longrightarrow> (tabKey, tabData) \<in> set entries \<Longrightarrow>
   fold mergeTabEntry entries tm tabKey = Some (mergeTab (tm tabKey) tabData)"
proof (induction entries arbitrary: tm)
  case Nil
  then show ?case by simp
next
  case (Cons e entries)
  show ?case
  proof (cases "e = (tabKey, tabData)")
    case True
    with Cons.prems have "tabKey \<notin> fst ` set entries" by auto
    from fold_mergeTabEntry_other[OF this] True show ?thesis
      by (simp add: mergeTabEntry_pair)
  next
    case False
    with Cons.prems have in_rest: "(tabKey, tabData) \<in> set entries" by auto
    with Cons.prems have "fst e \<noteq> tabKey" by (auto simp: image_iff)
    moreover from Cons.prems have "distinct (map fst entries)" by simp
    ultimately show ?thesis
      using Cons.IH[OF _ in_rest] by (cases e) (simp add: mergeTabEntry_pair)
  qed
qed

lemma tab_stats_mergeTab:
  "tab_stats (Some (mergeTab existing tabData)) = tab_stats existing ++ tab_stats (Some tabData)"
  by (auto simp: tab_stats_def mergeTab_def Let_def split: option.splits)

lemma tab_metrics_mergeTab:
  "tab_metrics (Some (mergeTab existing tabData)) =
     (if tab_metrics (Some tabData) \<noteq> [] then tab_metrics (Some tabData)
      else tab_metrics existing)"
  by (auto simp: tab_metrics_def mergeTab_def Let_def split: option.splits)

lemma mergePlayerStats_tabs:
  assumes "mergePlayerStats now cache r = Inr c'" and "r_tabs r = Some entries"
    and "entries \<noteq> []"
  shows "\<exists>tm. (case cache of None \<Rightarrow> Some Map.empty | Some c \<Rightarrow> c_tabs c) = Some tm \<and>
              c_tabs c' = Some (fold mergeTabEntry entries tm)"
  using assms by (auto simp: mergePlayerStats_def Let_def split: option.splits if_splits)

text \<open>
  Claim C9, as amended. When the merge returns, for every tab of the result the
  merged stats of the tab are the stats the cache had for it, overwritten by the
  entries of the result; the merged metrics are the metrics of the result when that
  list is not empty, and the metrics the cache had otherwise.
\<close>

theorem mergePlayerStats_tab:
  assumes "mergePlayerStats now cache r = Inr c'"
    and "r_tabs r = Some entries"
    and "distinct (map fst entries)"
    and "(tabKey, tabData) \<in> set entries"
  shows "tab_stats (cache_tab c' tabKey) =
           tab_stats (case cache of None \<Rightarrow> None | Some c \<Rightarrow> cache_tab c tabKey)
           ++ tab_stats (Some tabData)
         \<and> tab_metrics (cache_tab c' tabKey) =
           (if tab_metrics (Some tabData) \<noteq> [] then tab_metrics (Some tabData)
            else tab_metrics (case cache of None \<Rightarrow> None | Some c \<Rightarrow> cache_tab c tabKey))"
proof -
  from assms(4) have "entries \<noteq> []" by auto
  from mergePlayerStats_tabs[OF assms(1,2) this] obtain tm where
    tm: "(case cache of None \<Rightarrow> Some Map.empty | Some c \<Rightarrow> c_tabs c) = Some tm"
        "c_tabs c' = Some (fold mergeTabEntry entries tm)"
    by blast
  have old: "(case cache of None \<Rightarrow> None | Some c \<Rightarrow> cache_tab c tabKey) = tm tabKey"
    using tm(1) by (auto simp: cache_tab_def split: option.splits)
  have new: "cache_tab c' tabKey = Some (mergeTab (tm tabKey) tabData)"
    using tm(2) fold_mergeTabEntry_key[OF assms(3,4)] by (simp add: cache_tab_def)
  show ?thesis
    unfolding old new by (simp add: tab_stats_mergeTab tab_metrics_mergeTab)
qed

lemma sample_merge_returns:
  "mergePlayerStats 2 (Some sample_cache) sample_result =
     Inr (merged (mergePlayerStats 2 (Some sample_cache) sample_result))"
proof -
  have "\<exists>c'. mergePlayerStats 2 (Some sample_cache) sample_result = Inr c'"
    by (rule mergePlayerStats_returns) (simp add: sample_cache_def)
  then show ?thesis by (auto simp: merged_def)
qed

text \<open>
  The claim as written fails: the cache holds the metrics \<open>KDR\<close> for the tab, the
  result brings \<open>KDR, PvP Kills\<close>, and the merged tab has the metrics of the result.
\<close>

theorem mergePlayerStats_metrics_counterexample:
  "tab_metrics (cache_tab sample_cache ''pvp'') = [''KDR'']
   \<and> tab_metrics (cache_tab (merged (mergePlayerStats 2 (Some sample_cache) sample_result)) ''pvp'')
       = [''KDR'', ''PvP Kills'']"
  by (simp add: mergePlayerStats_def sample_cache_def sample_result_def merged_def Let_def
      cache_tab_def tab_metrics_def mergeTabEntry_pair mergeTab_def)

theorem mergePlayerStats_tab_witness:
  "mergePlayerStats 2 (Some sample_cache) sample_result =
     Inr (merged (mergePlayerStats 2 (Some sample_cache) sample_result))
   \<and> r_tabs sample_result = Some [(''pvp'',
         \<lparr>t_metrics = Some [''KDR'', ''PvP Kills''],
          t_stats = Some [''Alice'' \<mapsto> [''KDR'' \<mapsto> Fin 3, ''PvP Kills'' \<mapsto> Fin 9]],
          t_columnMap = Some [(''KDR'', 1), (''PvP Kills'', 2)]\<rparr>)]
   \<and> tab_stats (cache_tab (merged (mergePlayerStats 2 (Some sample_cache) sample_result)) ''pvp'')
       ''Alice'' = Some [''KDR'' \<mapsto> Fin 3, ''PvP Kills'' \<mapsto> Fin 9]
   \<and> tab_stats (cache_tab (merged (mergePlayerStats 2 (Some sample_cache) sample_result)) ''pvp'')
       ''Bob'' = Some [''KDR'' \<mapsto> Fin 2]
   \<and> tab_metrics (cache_tab (merged (mergePlayerStats 2 (Some sample_cache) sample_result)) ''pvp'')
       = [''KDR'', ''PvP Kills'']"
proof -
  let ?td = "\<lparr>t_metrics = Some [''KDR'', ''PvP Kills''],
          t_stats = Some [''Alice'' \<mapsto> [''KDR'' \<mapsto> Fin 3, ''PvP Kills'' \<mapsto> Fin 9]],
          t_columnMap = Some [(''KDR'', 1), (''PvP Kills'', 2)]\<rparr>"
  have r: "r_tabs sample_result = Some [(''pvp'', ?td)]"
    by (simp add: sample_result_def)
  have d: "distinct (map fst [(''pvp'', ?td)])" by simp
  have m: "(''pvp'', ?td) \<in> set [(''pvp'', ?td)]" by simp
  from mergePlayerStats_tab[OF sample_merge_returns r d m]
  show ?thesis
    using sample_merge_returns r
    by (simp add: sample_cache_def cache_tab_def tab_stats_def tab_metrics_def map_add_def)
qed

lemma map_add_twice: "(m ++ n) ++ n = m ++ n"
  by (rule ext) (simp add: map_add_def split: option.splits)

lemma map_add_self: "m ++ m = m"
  by (rule ext) (simp add: map_add_def split: option.splits)

lemma same_identity_sym: "same_identity a b = same_identity b a"
  by (auto simp: same_identity_def)

lemma fld_overwritten: "has_key r k \<Longrightarrow> fld (p ++ r) k = fld r k"
  by (auto simp: fld_def has_key_def map_add_def split: option.splits)

lemma same_identity_overwritten:
  "has_key r ''steamId'' \<Longrightarrow> has_key r ''steamUrl'' \<Longrightarrow>
   same_identity x (p ++ r) = same_identity x r"
  by (simp add: same_identity_def fld_overwritten)

lemma identified_self: "identified r \<Longrightarrow> same_identity r r"
  by (auto simp: identified_def same_identity_def)

lemma absorbs_noop: "absorbs ps r \<Longrightarrow> mergeProfile r ps = ps"
  by (auto simp: absorbs_def mergeProfile_def)

lemma findIndex_append:
  "findIndex p xs = Some j \<Longrightarrow> findIndex p (xs @ ys) = Some j"
  by (induction xs arbitrary: j) (auto split: if_splits)

lemma findIndex_append_None:
  "findIndex p xs = None \<Longrightarrow> p y \<Longrightarrow> findIndex p (xs @ [y]) = Some (length xs)"
  by (induction xs) (auto split: if_splits)

lemma mergeProfile_absorbs:
  assumes "identified r"
  shows "absorbs (mergeProfile r ps) r"
proof (cases "findIndex (same_identity r) ps")
  case None
  have "findIndex (same_identity r) (ps @ [r]) = Some (length ps)"
    using findIndex_append_None[of "same_identity r" ps r] None identified_self[OF assms]
    by simp
  then show ?thesis using None by (auto simp: absorbs_def mergeProfile_def map_add_self)
next
  case (Some j)
  note j = findIndex_Some[OF Some]
  let ?ps = "ps[j := ps ! j ++ r]"
  have "same_identity r (ps ! j ++ r)"
    using assms by (simp add: same_identity_overwritten identified_def identified_self)
  then have "findIndex (same_identity r) ?ps = Some j"
    using j by (intro findIndex_first) auto
  moreover have "?ps ! j ++ r = ?ps ! j"
    using j by (simp add: map_add_twice)
  ultimately show ?thesis using Some by (auto simp: absorbs_def mergeProfile_def)
qed

lemma absorbed_fields:
  assumes "p ++ r = p" and "has_key r k"
  shows "fld p k = fld r k"
proof -
  from assms(2) obtain v where v: "r k = Some v" by (auto simp: has_key_def split: option.splits)
  from assms(1) have "(p ++ r) k = p k" by simp
  with v show ?thesis by (simp add: fld_def)
qed

lemma absorbs_preserved:
  assumes a: "absorbs ps r" and r: "identified r" and r': "identified r'"
    and d: "\<not> same_identity r' r"
  shows "absorbs (mergeProfile r' ps) r"
proof -
  from a obtain j where j: "findIndex (same_identity r) ps = Some j" "ps ! j ++ r = ps ! j"
    by (auto simp: absorbs_def)
  note fj = findIndex_Some[OF j(1)]
  have ids: "fld (ps ! j) ''steamId'' = fld r ''steamId''"
            "fld (ps ! j) ''steamUrl'' = fld r ''steamUrl''"
    using absorbed_fields[OF j(2)] r by (auto simp: identified_def)
  have nj: "\<not> same_identity r' (ps ! j)"
    using d ids by (simp add: same_identity_def)
  show ?thesis
  proof (cases "findIndex (same_identity r') ps")
    case None
    have "findIndex (same_identity r) (ps @ [r']) = Some j"
      by (rule findIndex_append[OF j(1)])
    moreover have "(ps @ [r']) ! j = ps ! j" using fj by (simp add: nth_append)
    ultimately show ?thesis using None j(2) by (auto simp: absorbs_def mergeProfile_def)
  next
    case (Some j')
    note fj' = findIndex_Some[OF Some]
    from fj' nj have ne: "j' \<noteq> j" by auto
    let ?ps = "ps[j' := ps ! j' ++ r']"
    have "\<not> same_identity r (ps ! j' ++ r')"
      using d r' by (simp add: same_identity_overwritten identified_def same_identity_sym[of r r'])
    then have "\<forall>i<j. \<not> same_identity r (?ps ! i)"
      using fj fj' by (auto simp: nth_list_update)
    moreover have "same_identity r (?ps ! j)" using fj ne by simp
    ultimately have "findIndex (same_identity r) ?ps = Some j"
      using fj by (intro findIndex_first) auto
    moreover have "?ps ! j ++ r = ?ps ! j" using ne j(2) by simp
    ultimately show ?thesis using Some by (auto simp: absorbs_def mergeProfile_def)
  qed
qed

lemma fold_absorbs:
  assumes "absorbs ps r" and "identified r"
    and "\<forall>r' \<in> set rs. identified r' \<and> \<not> same_identity r' r"
  shows "absorbs (fold mergeProfile rs ps) r"
  using assms
proof (induction rs arbitrary: ps)
  case Nil
  then show ?case by simp
next
  case (Cons x rs)
  from Cons.prems have "absorbs (mergeProfile x ps) r"
    by (intro absorbs_preserved) auto
  with Cons show ?case by simp
qed

lemma mergeProfiles_absorbs_all:
  assumes "\<forall>r \<in> set rs. identified r" and "distinct_identities rs"
  shows "\<forall>r \<in> set rs. absorbs (fold mergeProfile rs ps) r"
  using assms
proof (induction rs arbitrary: ps)
  case Nil
  then show ?case by simp
next
  case (Cons x rs)
  have first: "absorbs (fold mergeProfile rs (mergeProfile x ps)) x"
  proof (rule fold_absorbs)
    show "absorbs (mergeProfile x ps) x" using Cons.prems by (intro mergeProfile_absorbs) simp
    show "identified x" using Cons.prems by simp
    show "\<forall>r' \<in> set rs. identified r' \<and> \<not> same_identity r' x"
      using Cons.prems by (auto simp: same_identity_sym[of _ x])
  qed
  have rest: "\<forall>r \<in> set rs. absorbs (fold mergeProfile rs (mergeProfile x ps)) r"
    using Cons.prems by (intro Cons.IH) auto
  from first rest show ?case by simp
qed

lemma fold_mergeProfile_noop:
  "\<forall>r \<in> set rs. absorbs ps r \<Longrightarrow> fold mergeProfile rs ps = ps"
  by (induction rs) (auto simp: absorbs_noop)

lemma mergeProfiles_idempotent:
  assumes "\<forall>r \<in> set rs. identified r" and "distinct_identities rs"
  shows "mergeProfiles (mergeProfiles ps rs) rs = mergeProfiles ps rs"
  unfolding mergeProfiles_def
  using mergeProfiles_absorbs_all[OF assms] by (intro fold_mergeProfile_noop) blast

lemma mergeTab_idempotent:
  "mergeTab (Some (mergeTab existing tabData)) tabData = mergeTab existing tabData"
  by (auto simp: mergeTab_def Let_def map_add_twice map_add_self split: option.splits)

lemma fold_mergeTabEntry_idempotent:
  assumes "distinct (map fst entries)"
  shows "fold mergeTabEntry entries (fold mergeTabEntry entries tm) = fold mergeTabEntry entries tm"
proof (rule ext)
  fix k
  show "fold mergeTabEntry entries (fold mergeTabEntry entries tm) k =
        fold mergeTabEntry entries tm k"
  proof (cases "k \<in> fst ` set entries")
    case False
    then show ?thesis by (simp add: fold_mergeTabEntry_other)
  next
    case True
    then obtain td where "(k, td) \<in> set entries" by auto
    then show ?thesis
      by (simp add: fold_mergeTabEntry_key[OF assms] mergeTab_idempotent)
  qed
qed

lemma SERVER_NAME_truthy: "truthy (JStr SERVER_NAME)"
  by (simp add: SERVER_NAME_def)

lemma jor_absorb: "truthy c \<Longrightarrow> jor (jor a (jor (jor a b) c)) c = jor (jor a b) c"
  by (simp add: jor_def)

lemma mergePlayerStats_unfold:
  "mergePlayerStats now cache r =
     (case (case cache of None \<Rightarrow> Some Map.empty | Some c \<Rightarrow> c_tabs c) of
        None \<Rightarrow>
          if result_tabs r \<noteq> [] then Inl TypeError
          else Inr \<lparr>c_serverName = jor (jor (r_serverName r)
                       (case cache of None \<Rightarrow> JUndefined | Some c \<Rightarrow> c_serverName c))
                       (JStr SERVER_NAME),
                    c_profiles = Some (mergeProfiles
                       (case cache of None \<Rightarrow> [] | Some c \<Rightarrow> cache_profiles c)
                       (result_profiles r)),
                    c_tabs = None,
                    c_missing = Some (case cache of None \<Rightarrow> []
                       | Some c \<Rightarrow> (case c_missing c of None \<Rightarrow> [] | Some ms \<Rightarrow> ms)),
                    c_serverInfo = (case r_serverInfo r of Some i \<Rightarrow> Some i
                       | None \<Rightarrow> (case cache of None \<Rightarrow> None | Some c \<Rightarrow> c_serverInfo c)),
                    c_updatedAt = Some now\<rparr>
      | Some tm \<Rightarrow>
          Inr \<lparr>c_serverName = jor (jor (r_serverName r)
                       (case cache of None \<Rightarrow> JUndefined | Some c \<Rightarrow> c_serverName c))
                       (JStr SERVER_NAME),
               c_profiles = Some (mergeProfiles
                       (case cache of None \<Rightarrow> [] | Some c \<Rightarrow> cache_profiles c)
                       (result_profiles r)),
               c_tabs = Some (fold mergeTabEntry (result_tabs r) tm),
               c_missing = Some (case cache of None \<Rightarrow> []
                       | Some c \<Rightarrow> (case c_missing c of None \<Rightarrow> [] | Some ms \<Rightarrow> ms)),
               c_serverInfo = (case r_serverInfo r of Some i \<Rightarrow> Some i
                       | None \<Rightarrow> (case cache of None \<Rightarrow> None | Some c \<Rightarrow> c_serverInfo c)),
               c_updatedAt = Some now\<rparr>)"
  by (simp add: mergePlayerStats_def Let_def cache_profiles_def result_profiles_def
      result_tabs_def split: option.splits)

lemma mergePlayerStats_missing:
  "mergePlayerStats now cache r = Inr c' \<Longrightarrow>
   c_missing c' = Some (case cache of None \<Rightarrow> []
      | Some c \<Rightarrow> (case c_missing c of None \<Rightarrow> [] | Some ms \<Rightarrow> ms))"
  by (auto simp: mergePlayerStats_unfold split: option.splits if_splits)

text \<open>
  Claim C2, as amended. Let the profiles of the result each carry the fields steamId
  and steamUrl, with a truthy value in one of them, and let no two of them share a
  steamId or a steamUrl. Then merging the result a second time returns the cache of
  the first merge with nothing changed but \<open>updatedAt\<close>, which is the time of the
  second merge: the profiles, the tabs with their stats, metrics and column maps, the
  missing list, the server name and the server info are the same.
\<close>

theorem mergePlayerStats_idempotent:
  assumes "mergePlayerStats t1 cache r = Inr c1"
    and "\<forall>p \<in> set (result_profiles r). identified p"
    and "distinct_identities (result_profiles r)"
    and "distinct (map fst (result_tabs r))"
  shows "mergePlayerStats t2 (Some c1) r = Inr (c1\<lparr>c_updatedAt := Some t2\<rparr>)"
proof -
  let ?old = "case cache of None \<Rightarrow> [] | Some c \<Rightarrow> cache_profiles c"
  have prof: "cache_profiles c1 = mergeProfiles ?old (result_profiles r)"
    using mergePlayerStats_profiles[OF assms(1)] by (simp add: cache_profiles_def)
  have prof2: "mergeProfiles (cache_profiles c1) (result_profiles r) = cache_profiles c1"
    unfolding prof by (rule mergeProfiles_idempotent[OF assms(2,3)])
  have cp: "c_profiles c1 = Some (cache_profiles c1)"
    using mergePlayerStats_profiles[OF assms(1)] by (simp add: cache_profiles_def)
  have miss: "\<exists>ms. c_missing c1 = Some ms"
    using mergePlayerStats_missing[OF assms(1)] by simp
  have name: "jor (jor (r_serverName r) (c_serverName c1)) (JStr SERVER_NAME) = c_serverName c1"
    using assms(1) SERVER_NAME_truthy
    by (auto simp: mergePlayerStats_unfold jor_def split: option.splits if_splits)
  have info: "(case r_serverInfo r of Some i \<Rightarrow> Some i | None \<Rightarrow> c_serverInfo c1)
              = c_serverInfo c1"
    using assms(1)
    by (auto simp: mergePlayerStats_unfold split: option.splits if_splits)
  show ?thesis
  proof (cases "c_tabs c1")
    case None
    with assms(1) have "result_tabs r = []"
      by (auto simp: mergePlayerStats_unfold split: option.splits if_splits)
    with None cp miss name info prof2 show ?thesis
      by (cases c1) (auto simp: mergePlayerStats_unfold split: option.splits)
  next
    case (Some tm1)
    with assms(1) obtain tm where "tm1 = fold mergeTabEntry (result_tabs r) tm"
      by (auto simp: mergePlayerStats_unfold split: option.splits if_splits)
    then have "fold mergeTabEntry (result_tabs r) tm1 = tm1"
      using fold_mergeTabEntry_idempotent[OF assms(4)] by simp
    with Some cp miss name info prof2 show ?thesis
      by (cases c1) (auto simp: mergePlayerStats_unfold split: option.splits)
  qed
qed

text \<open>
  The claim as written fails in two ways. The second merge stamps its own time: a
  merge at time 3 of the cache merged at time 2 has \<open>updatedAt = 3\<close>. And a profile
  with neither steamId nor steamUrl matches nothing, not even itself, so that each
  merge appends it again.
\<close>

theorem mergePlayerStats_idempotent_counterexample:
  "c_updatedAt (merged (mergePlayerStats 2 (Some sample_cache) sample_result)) = Some 2
   \<and> c_updatedAt (merged (mergePlayerStats 3
        (Some (merged (mergePlayerStats 2 (Some sample_cache) sample_result))) sample_result))
       = Some 3
   \<and> cache_profiles (merged (mergePlayerStats 2 None dave_result)) = [dave]
   \<and> cache_profiles (merged (mergePlayerStats 2
        (Some (merged (mergePlayerStats 2 None dave_result))) dave_result)) = [dave, dave]"
proof -
  have a: "c_updatedAt (merged (mergePlayerStats t (Some c) sample_result)) =
           (case c_tabs c of None \<Rightarrow> None | Some tm \<Rightarrow> Some t)" for t c
    by (simp add: mergePlayerStats_unfold merged_def result_tabs_def sample_result_def
        split: option.splits)
  have t1: "c_tabs sample_cache \<noteq> None" by (simp add: sample_cache_def)
  have t2: "c_tabs (merged (mergePlayerStats 2 (Some sample_cache) sample_result)) \<noteq> None"
    by (simp add: mergePlayerStats_unfold merged_def sample_cache_def)
  have nd: "\<not> same_identity dave dave"
    by (simp add: same_identity_def dave_def fld_def)
  have d1: "merged (mergePlayerStats 2 None dave_result) =
     \<lparr>c_serverName = JStr ''US Monthly (Premium)'', c_profiles = Some [dave],
      c_tabs = Some Map.empty, c_missing = Some [], c_serverInfo = None,
      c_updatedAt = Some 2\<rparr>"
    by (simp add: mergePlayerStats_unfold merged_def dave_result_def result_tabs_def
        result_profiles_def mergeProfiles_def mergeProfile_def jor_def)
  have d2: "cache_profiles (merged (mergePlayerStats 2
        (Some (merged (mergePlayerStats 2 None dave_result))) dave_result)) = [dave, dave]"
    unfolding d1 using nd
    by (simp add: mergePlayerStats_unfold merged_def dave_result_def result_tabs_def
        result_profiles_def cache_profiles_def mergeProfiles_def mergeProfile_def)
  show ?thesis
    using a[of 2 sample_cache] a[of 3] t1 t2 d1 d2
    by (auto simp: cache_profiles_def)
qed

lemma alice_scraped_identified: "identified alice_scraped"
  by (simp add: identified_def alice_scraped_def has_key_def fld_def)

theorem mergePlayerStats_idempotent_witness:
  "mergePlayerStats 2 (Some sample_cache) sample_result =
     Inr (merged (mergePlayerStats 2 (Some sample_cache) sample_result))
   \<and> list_all identified (result_profiles sample_result)
   \<and> distinct_identities (result_profiles sample_result)
   \<and> distinct (map fst (result_tabs sample_result))
   \<and> mergePlayerStats 3 (Some (merged (mergePlayerStats 2 (Some sample_cache) sample_result)))
        sample_result =
      Inr ((merged (mergePlayerStats 2 (Some sample_cache) sample_result))\<lparr>c_updatedAt := Some 3\<rparr>)"
proof -
  have h2: "\<forall>p \<in> set (result_profiles sample_result). identified p"
    using alice_scraped_identified by (simp add: result_profiles_def sample_result_def)
  have h3: "distinct_identities (result_profiles sample_result)"
    by (simp add: result_profiles_def sample_result_def)
  have h4: "distinct (map fst (result_tabs sample_result))"
    by (simp add: result_tabs_def sample_result_def)
  from mergePlayerStats_idempotent[OF sample_merge_returns h2 h3 h4, of 3]
  show ?thesis using sample_merge_returns h2 h3 h4 by (simp add: list_all_iff)
qed

lemma bob_unrelated: "unrelated bob [alice_scraped]"
  by (simp add: unrelated_def bob_def alice_scraped_def fld_def)

theorem mergePlayerStats_keeps_unrelated_witness:
  "mergePlayerStats 2 (Some sample_cache) sample_result =
     Inr (merged (mergePlayerStats 2 (Some sample_cache) sample_result))
   \<and> 1 < length (cache_profiles sample_cache)
   \<and> unrelated (cache_profiles sample_cache ! 1) (result_profiles sample_result)
   \<and> cache_profiles (merged (mergePlayerStats 2 (Some sample_cache) sample_result)) ! 1 = bob
   \<and> bob \<in> set (cache_profiles (merged (mergePlayerStats 2 (Some sample_cache) sample_result)))"
proof -
  have h2: "1 < length (cache_profiles sample_cache)"
    by (simp add: cache_profiles_def sample_cache_def)
  have b: "cache_profiles sample_cache ! 1 = bob"
    by (simp add: cache_profiles_def sample_cache_def)
  have h3: "unrelated (cache_profiles sample_cache ! 1) (result_profiles sample_result)"
    unfolding b using bob_unrelated by (simp add: result_profiles_def sample_result_def)
  from mergePlayerStats_keeps_unrelated[OF sample_merge_returns h2 h3]
  show ?thesis using sample_merge_returns h2 h3 b by simp
qed

text \<open>
  Claim C3 fails on the code. \<open>mergePlayerStats\<close> copies the missing list of the cache
  and never reads the missing list of the result: here the result reports one
  missing player and the merged cache reports none.
\<close>

theorem mergePlayerStats_drops_missing:
  "r_missing sample_result = Some [carol_missing]
   \<and> c_missing sample_cache = Some []
   \<and> c_missing (merged (mergePlayerStats 2 (Some sample_cache) sample_result)) = Some []"
  using mergePlayerStats_missing[OF sample_merge_returns]
  by (simp add: sample_result_def sample_cache_def)

section \<open>Verified properties: removing a player from the caches\<close>














section \<open>Verified properties: the response built from a cache\<close>

lemma buildResponseFromCache_profiles:
  "\<exists>resp. buildResponseFromCache parser (Some c) players = Some resp \<and>
     resp_profiles resp = map withNeedsSteam64 (attachPlayerIds
        (merged_for_roster c players @
         missingProfiles parser (merged_for_roster c players) players) players)"
  by (simp add: buildResponseFromCache_def Let_def merged_for_roster_def cache_profiles_def)

lemma withNeedsSteam64_fld:
  "k \<noteq> ''needsSteam64'' \<Longrightarrow> fld (withNeedsSteam64 q) k = fld q k"
  by (simp add: withNeedsSteam64_def Let_def fld_def)

lemma attached_profile:
  assumes "q \<in> set profiles"
  shows "\<exists>q' \<in> set (map withNeedsSteam64 (attachPlayerIds profiles players)).
           \<forall>k. k \<notin> added_fields \<longrightarrow> fld q' k = fld q k"
proof -
  let ?f = "\<lambda>profile.
     case lookup_match (index_players_at ''steamId'' players)
            (index_players_at ''steamUrl'' players) profile of
       None \<Rightarrow> profile
     | Some (index, player) \<Rightarrow>
         profile(''playerId'' \<mapsto> JNum (int index),
                 ''storedSteamUrl'' \<mapsto> jor (fld player ''steamUrl'') JNull,
                 ''storedSteamId'' \<mapsto> jor (fld player ''steamId'') JNull)"
  have a: "attachPlayerIds profiles players = map ?f profiles"
    by (simp add: attachPlayerIds_def Let_def)
  have f: "fld (?f q) k = fld q k" if "k \<notin> added_fields" for k
    using that by (auto simp: fld_def added_fields_def split: option.splits prod.splits)
  have "withNeedsSteam64 (?f q) \<in> set (map withNeedsSteam64 (attachPlayerIds profiles players))"
    using assms unfolding a by simp
  moreover have "\<forall>k. k \<notin> added_fields \<longrightarrow> fld (withNeedsSteam64 (?f q)) k = fld q k"
    using f by (auto simp: withNeedsSteam64_fld added_fields_def)
  ultimately show ?thesis by blast
qed

lemma identity_key_cong:
  "fld q' ''steamId'' = fld q ''steamId'' \<Longrightarrow> fld q' ''steamUrl'' = fld q ''steamUrl'' \<Longrightarrow>
   identity_key parser q' = identity_key parser q"
  by (simp add: identity_key_def)

lemma placeholder_fields:
  "fld (placeholder p) ''steamId'' = fld p ''steamId''"
  "fld (placeholder p) ''steamUrl'' = fld p ''steamUrl''"
  "fld (placeholder p) ''displayName'' =
     jor (jor (fld p ''displayName'') (fld p ''steamId'')) (fld p ''steamUrl'')"
  "fld (placeholder p) ''fallbackName'' =
     jor (jor (fld p ''displayName'') (fld p ''steamId'')) (fld p ''steamUrl'')"
  "fld (placeholder p) ''avatarUrl'' = jor (fld p ''avatarUrl'') (JStr FALLBACK_AVATAR)"
  by (simp_all add: placeholder_def fld_def)

lemma mergedIds_iff:
  "s \<in> set (mergedIds parser ms) \<longleftrightarrow>
   (\<exists>m \<in> set ms. truthy (identity_key parser m) \<and> to_str (identity_key parser m) = s)"
  by (auto simp: mergedIds_def)

lemma placeholder_listed:
  "p \<in> set players \<Longrightarrow> truthy (identity_key parser p) \<Longrightarrow>
   to_str (identity_key parser p) \<notin> set (mergedIds parser ms) \<Longrightarrow>
   placeholder p \<in> set (missingProfiles parser ms players)"
  by (auto simp: missingProfiles_def Let_def)

text \<open>
  Claim C4, as amended. Let a roster player have an identity key: a truthy steamId,
  or else a steamUrl whose path has a last segment. Then the response has a profile
  with that identity key. When no cache profile merged for the roster has the key,
  the response has the placeholder of the player: a profile with the steamId and the
  steamUrl of the player, whose display name is the first truthy one of the player's
  displayName, steamId and steamUrl, and whose avatarUrl is the player's or else the
  fallback avatar.
\<close>

theorem buildResponseFromCache_covers_roster:
  assumes "p \<in> set players" and "truthy (identity_key parser p)"
  shows "\<exists>resp. buildResponseFromCache parser (Some c) players = Some resp \<and>
     (\<exists>q \<in> set (resp_profiles resp).
        truthy (identity_key parser q) \<and>
        to_str (identity_key parser q) = to_str (identity_key parser p)) \<and>
     (to_str (identity_key parser p) \<notin> set (mergedIds parser (merged_for_roster c players))
      \<longrightarrow> (\<exists>q \<in> set (resp_profiles resp).
             fld q ''steamId'' = fld p ''steamId'' \<and>
             fld q ''steamUrl'' = fld p ''steamUrl'' \<and>
             fld q ''displayName'' =
               jor (jor (fld p ''displayName'') (fld p ''steamId'')) (fld p ''steamUrl'') \<and>
             fld q ''fallbackName'' =
               jor (jor (fld p ''displayName'') (fld p ''steamId'')) (fld p ''steamUrl'') \<and>
             fld q ''avatarUrl'' = jor (fld p ''avatarUrl'') (JStr FALLBACK_AVATAR)))"
proof -
  let ?ms = "merged_for_roster c players"
  let ?combined = "?ms @ missingProfiles parser ?ms players"
  from buildResponseFromCache_profiles[of parser c players] obtain resp where
    resp: "buildResponseFromCache parser (Some c) players = Some resp"
          "resp_profiles resp = map withNeedsSteam64 (attachPlayerIds ?combined players)"
    by blast
  have keep: "\<exists>q' \<in> set (resp_profiles resp). \<forall>k. k \<notin> added_fields \<longrightarrow> fld q' k = fld q k"
    if "q \<in> set ?combined" for q
    unfolding resp(2) using that by (rule attached_profile)
  have out: "''steamId'' \<notin> added_fields" "''steamUrl'' \<notin> added_fields"
    "''displayName'' \<notin> added_fields" "''fallbackName'' \<notin> added_fields"
    "''avatarUrl'' \<notin> added_fields"
    by (simp_all add: added_fields_def)
  have placeholder_case:
    "\<exists>q \<in> set (resp_profiles resp).
             fld q ''steamId'' = fld p ''steamId'' \<and>
             fld q ''steamUrl'' = fld p ''steamUrl'' \<and>
             fld q ''displayName'' =
               jor (jor (fld p ''displayName'') (fld p ''steamId'')) (fld p ''steamUrl'') \<and>
             fld q ''fallbackName'' =
               jor (jor (fld p ''displayName'') (fld p ''steamId'')) (fld p ''steamUrl'') \<and>
             fld q ''avatarUrl'' = jor (fld p ''avatarUrl'') (JStr FALLBACK_AVATAR)"
    if "to_str (identity_key parser p) \<notin> set (mergedIds parser ?ms)"
  proof -
    from placeholder_listed[OF assms that] have "placeholder p \<in> set ?combined" by simp
    from keep[OF this] obtain q' where
      q': "q' \<in> set (resp_profiles resp)" "\<forall>k. k \<notin> added_fields \<longrightarrow> fld q' k = fld (placeholder p) k"
      by blast
    with out show ?thesis
      by (intro bexI[of _ q']) (simp_all add: placeholder_fields)
  qed
  have key_case: "\<exists>q \<in> set (resp_profiles resp).
        truthy (identity_key parser q) \<and>
        to_str (identity_key parser q) = to_str (identity_key parser p)"
  proof (cases "to_str (identity_key parser p) \<in> set (mergedIds parser ?ms)")
    case True
    then obtain m where m: "m \<in> set ?ms" "truthy (identity_key parser m)"
      "to_str (identity_key parser m) = to_str (identity_key parser p)"
      by (auto simp: mergedIds_iff)
    from keep[of m] m(1) obtain q' where
      q': "q' \<in> set (resp_profiles resp)" "\<forall>k. k \<notin> added_fields \<longrightarrow> fld q' k = fld m k"
      by auto
    with out have "identity_key parser q' = identity_key parser m"
      by (intro identity_key_cong) simp_all
    with m have "truthy (identity_key parser q') \<and>
        to_str (identity_key parser q') = to_str (identity_key parser p)"
      by simp
    with q'(1) show ?thesis by (intro bexI[of _ q']) simp_all
  next
    case False
    from placeholder_case[OF False] obtain q where
      q: "q \<in> set (resp_profiles resp)" "fld q ''steamId'' = fld p ''steamId''"
         "fld q ''steamUrl'' = fld p ''steamUrl''"
      by blast
    then have "identity_key parser q = identity_key parser p"
      by (intro identity_key_cong) simp_all
    with assms(2) have "truthy (identity_key parser q) \<and>
        to_str (identity_key parser q) = to_str (identity_key parser p)"
      by simp
    with q(1) show ?thesis by (intro bexI[of _ q]) simp_all
  qed
  from resp(1) key_case placeholder_case show ?thesis by blast
qed

text \<open>
  The claim as written fails for a roster player without an identity key. The roster
  holds the player that was added with the input \<open>abc\<close>; the cache has no profiles;
  the response has no profile at all.
\<close>

theorem buildResponseFromCache_counterexample:
  "resp_profiles (the (buildResponseFromCache https_pathname (Some empty_cache) [stray])) = []"
  by (simp add: buildResponseFromCache_def Let_def empty_cache_def mergeCachedProfiles_def
      missingProfiles_def identity_key_def steamIdFromUrl_def URL_pathname_def stray_def
      fld_def jor_def attachPlayerIds_def)

lemma carol_key: "identity_key parser carol = JStr ''76561198000000003''"
  by (simp add: identity_key_def carol_def fld_def jor_def)

lemma merged_for_sample:
  "mergedIds parser (merged_for_roster sample_cache [alice, carol]) = [''76561198000000001'']"
  by (simp add: merged_for_roster_def cache_profiles_def sample_cache_def mergeCachedProfiles_def
      index_players_def lookup_match_def has_key_def Let_def mergedIds_def identity_key_def
      alice_def bob_def carol_def fld_def jor_def)

theorem buildResponseFromCache_covers_roster_witness:
  "carol \<in> set [alice, carol]
   \<and> truthy (identity_key https_pathname carol)
   \<and> to_str (identity_key https_pathname carol) \<notin>
       set (mergedIds https_pathname (merged_for_roster sample_cache [alice, carol]))
   \<and> (\<exists>resp. buildResponseFromCache https_pathname (Some sample_cache) [alice, carol] = Some resp \<and>
        (\<exists>q \<in> set (resp_profiles resp).
           fld q ''steamId'' = JStr ''76561198000000003'' \<and>
           fld q ''steamUrl'' = JStr ''https://steamcommunity.com/profiles/76561198000000003'' \<and>
           fld q ''displayName'' = JStr ''76561198000000003'' \<and>
           fld q ''avatarUrl'' = JStr FALLBACK_AVATAR))"
proof -
  have h1: "carol \<in> set [alice, carol]" by simp
  have h2: "truthy (identity_key https_pathname carol)" by (simp add: carol_key)
  have h3: "to_str (identity_key https_pathname carol) \<notin>
       set (mergedIds https_pathname (merged_for_roster sample_cache [alice, carol]))"
    by (simp add: carol_key merged_for_sample)
  have f: "fld carol ''steamId'' = JStr ''76561198000000003''"
    "fld carol ''steamUrl'' = JStr ''https://steamcommunity.com/profiles/76561198000000003''"
    "jor (jor (fld carol ''displayName'') (fld carol ''steamId'')) (fld carol ''steamUrl'')
       = JStr ''76561198000000003''"
    "jor (fld carol ''avatarUrl'') (JStr FALLBACK_AVATAR) = JStr FALLBACK_AVATAR"
    by (simp_all add: carol_def fld_def jor_def)
  from buildResponseFromCache_covers_roster[OF h1 h2, of sample_cache] h3
  obtain resp q where
    "buildResponseFromCache https_pathname (Some sample_cache) [alice, carol] = Some resp"
    "q \<in> set (resp_profiles resp)"
    "fld q ''steamId'' = fld carol ''steamId''"
    "fld q ''steamUrl'' = fld carol ''steamUrl''"
    "fld q ''displayName'' =
       jor (jor (fld carol ''displayName'') (fld carol ''steamId'')) (fld carol ''steamUrl'')"
    "fld q ''avatarUrl'' = jor (fld carol ''avatarUrl'') (JStr FALLBACK_AVATAR)"
    by blast
  then have "\<exists>resp. buildResponseFromCache https_pathname (Some sample_cache) [alice, carol] = Some resp \<and>
        (\<exists>q \<in> set (resp_profiles resp).
           fld q ''steamId'' = JStr ''76561198000000003'' \<and>
           fld q ''steamUrl'' = JStr ''https://steamcommunity.com/profiles/76561198000000003'' \<and>
           fld q ''displayName'' = JStr ''76561198000000003'' \<and>
           fld q ''avatarUrl'' = JStr FALLBACK_AVATAR)"
    using f by (intro exI[of _ resp] conjI bexI[of _ q]) simp_all
  with h1 h2 h3 show ?thesis by blast
qed

section \<open>Verified properties: the recomputed headshot percentage\<close>

lemma floor_log2_le:
  assumes "0 < q"
  shows "2 powi (floor_log2 q) \<le> q"
proof -
  obtain p d where pd: "quotient_of q = (p, d)" by (cases "quotient_of q")
  have d: "0 < d" using quotient_of_denom_pos[OF pd] .
  have q: "q = of_int p / of_int d" using quotient_of_div[OF pd] .
  from assms q d have p: "0 < p" by (simp add: zero_less_divide_iff)
  let ?e = "bitlen p - bitlen d"
  show ?thesis
  proof (cases "2 powi ?e \<le> q")
    case True
    then show ?thesis by (simp add: floor_log2_def pd)
  next
    case False
    have bp: "(2::int) ^ nat (bitlen p - 1) \<le> p" using bitlen_bounds[OF p] by simp
    have bd: "d < (2::int) ^ nat (bitlen d)" using bitlen_bounds[OF d] by simp
    have lp: "1 \<le> bitlen p" using p by (simp add: bitlen_alt_def)
    have ld: "0 \<le> bitlen d" by (rule bitlen_nonneg)
    have "(2::rat) powi (?e - 1) = 2 powi (bitlen p - 1) / 2 powi (bitlen d)"
      using power_int_diff[of "2::rat" "bitlen p - 1" "bitlen d"] by (simp add: algebra_simps)
    also have "\<dots> = 2 ^ nat (bitlen p - 1) / 2 ^ nat (bitlen d)"
      using lp ld by (simp add: power_int_nonneg_exp)
    also have "\<dots> \<le> of_int p / of_int d"
    proof (rule frac_le)
      show "(0::rat) \<le> of_int p" using p by simp
      have "rat_of_int (2 ^ nat (bitlen p - 1)) \<le> of_int p"
        using bp by (subst of_int_le_iff)
      then show "(2::rat) ^ nat (bitlen p - 1) \<le> of_int p" by simp
      show "(0::rat) < of_int d" using d by simp
      have "rat_of_int d \<le> of_int (2 ^ nat (bitlen d))"
        using bd by (subst of_int_le_iff) simp
      then show "rat_of_int d \<le> 2 ^ nat (bitlen d)" by simp
    qed
    finally have "2 powi (?e - 1) \<le> q" using q by simp
    with False show ?thesis by (simp add: floor_log2_def pd)
  qed
qed

lemma round_half_even_of_int: "round_half_even (of_int n) = n"
  by (simp add: round_half_even_def)

text \<open>A value that binary64 represents is rounded to itself.\<close>

lemma r64_exact:
  assumes m: "0 < m" "m < 2 ^ 53" and k: "- 1074 \<le> k" "k \<le> 971"
  shows "r64 (of_int m * 2 powi k) = Fin (of_int m * 2 powi k)"
proof -
  define q where "q = rat_of_int m * 2 powi k"
  define e where "e = max (floor_log2 q) (- 1022)"
  have qpos: "0 < q" using m by (simp add: q_def)
  have "rat_of_int m < of_int (2 ^ 53)" using m(2) by (subst of_int_less_iff)
  then have "rat_of_int m < 2 ^ 53" by simp
  then have "q < 2 ^ 53 * 2 powi k"
    unfolding q_def by (intro mult_strict_right_mono) simp_all
  also have "\<dots> = 2 powi (53 + k)"
    using power_int_add[of "2::rat" 53 k] by simp
  finally have up: "q < 2 powi (53 + k)" .
  have "2 powi (floor_log2 q) < (2::rat) powi (53 + k)"
    using floor_log2_le[OF qpos] up by simp
  then have "floor_log2 q < 53 + k"
    using power_int_increasing[of "53 + k" "floor_log2 q" "2::rat"]
    by (cases "floor_log2 q < 53 + k") auto
  with k have j: "0 \<le> k - (e - 52)" by (simp add: e_def)
  define j where "j = nat (k - (e - 52))"
  have kj: "k = (e - 52) + int j" using j by (simp add: j_def)
  have "(2::rat) powi ((e - 52) + int j) = 2 powi (e - 52) * 2 powi (int j)"
    by (rule power_int_add) simp
  then have split: "(2::rat) powi k = 2 powi (e - 52) * 2 ^ j"
    using kj by simp
  have u: "(2::rat) powi (e - 52) \<noteq> 0" by simp
  have "q / 2 powi (e - 52) = rat_of_int m * 2 ^ j"
    unfolding q_def split using u by simp
  then have quot: "q / 2 powi (e - 52) = of_int (m * 2 ^ j)" by simp
  have restored: "of_int (round_half_even (q / 2 powi (e - 52))) * 2 powi (e - 52) = q"
    unfolding quot round_half_even_of_int unfolding q_def split by simp
  have "2 powi (53 + k) \<le> (2::rat) powi 1024"
    using k by (intro power_int_increasing) simp_all
  with up have small: "\<not> 2 powi 1024 \<le> q" by simp
  have ne: "q \<noteq> 0" using qpos by simp
  have eq: "max (floor_log2 q) (- 1022) = e" by (simp add: e_def)
  have "r64 q = Fin q"
    unfolding r64_def Let_def
    by (simp only: abs_of_pos[OF qpos] eq restored small ne qpos if_False if_True)
  then show ?thesis by (simp only: q_def)
qed

lemma r64_quarter: "r64 (1 / 4) = Fin (1 / 4)"
  using r64_exact[of 1 "- 2"] by (simp add: power_int_minus)

lemma r64_of_nat_small:
  assumes "0 < n" "n < 2 ^ 53"
  shows "r64 (of_int n) = Fin (of_int n)"
  using r64_exact[of n 0] assms by simp

lemma headshot_example:
  "toFixed2_Number (jmul (jdiv (Fin 50) (Fin 200)) (Fin 100)) = Fin 25"
proof -
  have a: "jdiv (Fin 50) (Fin 200) = Fin (1 / 4)"
    using r64_quarter by simp
  have b: "r64 25 = Fin 25" using r64_of_nat_small[of 25] by simp
  have c: "jmul (Fin (1 / 4)) (Fin 100) = Fin 25" using b by simp
  have d: "\<lfloor>(5001::rat) / 2\<rfloor> = 2500" by (rule floor_unique) simp_all
  show ?thesis unfolding a c using b by (simp add: toFixed2_Number_def d)
qed

lemma round_half_even_nonneg: "0 \<le> x \<Longrightarrow> 0 \<le> round_half_even x"
  by (auto simp: round_half_even_def Let_def)

lemma r64_nonneg: "0 \<le> q \<Longrightarrow> r64 q = PosInf \<or> (\<exists>r\<ge>0. r64 q = Fin r)"
  by (auto simp: r64_def Let_def round_half_even_nonneg intro!: mult_nonneg_nonneg divide_nonneg_pos)

lemma readable_r64: "0 \<le> q \<Longrightarrow> readable (r64 q)"
  using r64_nonneg[of q] by (auto simp: readable_def at_least_zero_def)

lemma readable_NaN: "readable NaN"
  by (simp add: readable_def)

lemma readable_decimal: "readable (decimal_to_number s)"
  by (auto simp: decimal_to_number_def Let_def readable_r64 readable_NaN)

lemma readable_getCol: "getCol row columnMap k label = Inr v \<Longrightarrow> readable v"
  by (auto simp: getCol_def getNumeric_def getTooltipNumber_def Let_def readable_decimal
      split: option.splits sum.splits if_splits)
     (simp_all add: readable_def at_least_zero_def)

lemma readable_readLabels:
  "readLabels row columnMap k labels st0 = Inr st \<Longrightarrow>
   (\<forall>l v. st0 l = Some v \<longrightarrow> readable v) \<Longrightarrow> st l = Some v \<Longrightarrow> readable v"
proof (induction labels arbitrary: k st0)
  case Nil
  then show ?case by simp
next
  case (Cons label labels)
  from Cons.prems(1) obtain x where x: "getCol row columnMap k label = Inr x"
    "readLabels row columnMap (Suc k) labels (st0(label \<mapsto> x)) = Inr st"
    by (auto split: sum.splits)
  have "\<forall>l v. (st0(label \<mapsto> x)) l = Some v \<longrightarrow> readable v"
    using Cons.prems(2) readable_getCol[OF x(1)] by auto
  from Cons.IH[OF x(2) this Cons.prems(3)] show ?case .
qed

lemma sample_values:
  "decimal_to_number ''200'' = Fin 200"
  "decimal_to_number ''50'' = Fin 50"
  "decimal_to_number ''37.5'' = Fin (75 / 2)"
proof -
  have v: "digits_value ''200'' = 200" "digits_value ''50'' = 50"
    "digits_value ''37'' = 37" "digits_value ''5'' = 5" "digits_value [] = 0"
    by (simp_all add: digits_value_def)
  have r: "r64 200 = Fin 200" "r64 50 = Fin 50"
    using r64_of_nat_small[of 200] r64_of_nat_small[of 50] by simp_all
  have h: "r64 (75 / 2) = Fin (75 / 2)"
    using r64_exact[of 75 "- 1"] by (simp add: power_int_minus)
  show "decimal_to_number ''200'' = Fin 200" "decimal_to_number ''50'' = Fin 50"
    using r by (simp_all add: decimal_to_number_def v)
  have "(37::rat) + 5 / 10 = 75 / 2" by simp
  then show "decimal_to_number ''37.5'' = Fin (75 / 2)"
    using h by (simp add: decimal_to_number_def v)
qed

lemma sample_read:
  "readLabels sample_row sample_columns 0 (labels_for sample_columns (Some sample_labels))
     Map.empty =
   Inr [''Shots Hit'' \<mapsto> Fin 200, ''Headshots'' \<mapsto> Fin 50, ''Headshot %'' \<mapsto> Fin (75 / 2)]"
proof -
  have n: "numeric_chars (trim ''200'') = ''200''" "numeric_chars (trim '' 50 '') = ''50''"
    "numeric_chars [] = []" "numeric_chars ''37.5 %'' = ''37.5''"
    by (simp_all add: numeric_chars_def trim_def is_space_def is_digit_def)
  show ?thesis
    by (simp add: labels_for_def sample_labels_def sample_columns_def sample_row_def
        getCol_def getNumeric_def getTooltipNumber_def n sample_values)
qed

text \<open>\<open>floor_log2 q\<close> is the exponent \<open>e\<close> with \<open>2 powi e \<le> q < 2 powi (e + 1)\<close>.\<close>

lemma floor_log2_less:
  assumes "0 < q"
  shows "q < 2 powi (floor_log2 q + 1)"
proof -
  obtain p d where pd: "quotient_of q = (p, d)" by (cases "quotient_of q")
  have d: "0 < d" using quotient_of_denom_pos[OF pd] .
  have q: "q = of_int p / of_int d" using quotient_of_div[OF pd] .
  from assms q d have p: "0 < p" by (simp add: zero_less_divide_iff)
  let ?e = "bitlen p - bitlen d"
  have bp: "p < (2::int) ^ nat (bitlen p)" using bitlen_bounds[OF p] by simp
  have bd: "(2::int) ^ nat (bitlen d - 1) \<le> d" using bitlen_bounds[OF d] by simp
  have lp: "0 \<le> bitlen p" by (rule bitlen_nonneg)
  have ld: "1 \<le> bitlen d" using d by (simp add: bitlen_alt_def)
  have "rat_of_int p < of_int (2 ^ nat (bitlen p))" using bp by (subst of_int_less_iff)
  then have np: "rat_of_int p < 2 ^ nat (bitlen p)" by simp
  have "rat_of_int (2 ^ nat (bitlen d - 1)) \<le> of_int d" using bd by (subst of_int_le_iff)
  then have nd: "(2::rat) ^ nat (bitlen d - 1) \<le> of_int d" by simp
  have "of_int p / of_int d < (2::rat) ^ nat (bitlen p) / 2 ^ nat (bitlen d - 1)"
  proof (rule frac_less)
    show "(0::rat) \<le> of_int p" using p by simp
    show "rat_of_int p < 2 ^ nat (bitlen p)" by (rule np)
    show "(0::rat) < 2 ^ nat (bitlen d - 1)" by simp
    show "(2::rat) ^ nat (bitlen d - 1) \<le> of_int d" by (rule nd)
  qed
  also have "\<dots> = 2 powi (bitlen p) / 2 powi (bitlen d - 1)"
    using lp ld by (simp add: power_int_nonneg_exp)
  also have "\<dots> = 2 powi (?e + 1)"
    using power_int_diff[of "2::rat" "bitlen p" "bitlen d - 1"] by (simp add: algebra_simps)
  finally have up: "q < 2 powi (?e + 1)" using q by simp
  show ?thesis
  proof (cases "2 powi ?e \<le> q")
    case True
    then show ?thesis using up by (simp add: floor_log2_def pd)
  next
    case False
    then show ?thesis by (simp add: floor_log2_def pd)
  qed
qed

lemma floor_log2_unique:
  assumes "2 powi e \<le> q" "q < 2 powi (e + 1)"
  shows "floor_log2 q = e"
proof -
  have pos: "0 < q" using assms(1) by (rule less_le_trans[rotated]) simp
  have a: "(2::rat) powi (floor_log2 q) < 2 powi (e + 1)"
    using floor_log2_le[OF pos] assms(2) by simp
  have b: "(2::rat) powi e < 2 powi (floor_log2 q + 1)"
    using floor_log2_less[OF pos] assms(1) by simp
  have "floor_log2 q < e + 1"
    using a power_int_increasing[of "e + 1" "floor_log2 q" "2::rat"]
    by (cases "floor_log2 q < e + 1") auto
  moreover have "e < floor_log2 q + 1"
    using b power_int_increasing[of "floor_log2 q + 1" e "2::rat"]
    by (cases "e < floor_log2 q + 1") auto
  ultimately show ?thesis by simp
qed

lemma round_half_even_near:
  assumes "of_int m - 1 / 2 < x" "x < of_int m + 1 / 2"
  shows "round_half_even x = m"
proof -
  have "\<lfloor>x\<rfloor> = m \<or> \<lfloor>x\<rfloor> = m - 1" using assms by linarith
  then show ?thesis
  proof
    assume f: "\<lfloor>x\<rfloor> = m"
    with assms show ?thesis by (simp add: round_half_even_def Let_def)
  next
    assume f: "\<lfloor>x\<rfloor> = m - 1"
    with assms show ?thesis by (simp add: round_half_even_def Let_def)
  qed
qed

text \<open>
  Rounding a positive rational in the normal range whose exponent and nearest
  multiple of the unit are known.
\<close>

lemma r64_at:
  assumes e: "2 powi e \<le> q" "q < 2 powi (e + 1)" "- 1022 \<le> e" "e < 1023"
    and rd: "round_half_even (q / 2 powi (e - 52)) = m" and m: "m < 2 ^ 53"
  shows "r64 q = Fin (of_int m * 2 powi (e - 52))"
proof -
  have qpos: "0 < q" using e(1) by (rule less_le_trans[rotated]) simp
  have ne: "q \<noteq> 0" using qpos by simp
  have fl: "max (floor_log2 q) (- 1022) = e"
    using floor_log2_unique[OF e(1,2)] e(3) by simp
  have "rat_of_int m < of_int (2 ^ 53)" using m by (subst of_int_less_iff)
  then have "rat_of_int m < 2 ^ 53" by simp
  then have "rat_of_int m * 2 powi (e - 52) < 2 ^ 53 * 2 powi (e - 52)"
    by (intro mult_strict_right_mono) simp_all
  also have "\<dots> = 2 powi (e + 1)"
    using power_int_add[of "2::rat" 53 "e - 52"] by (simp add: add.commute)
  also have "\<dots> \<le> 2 powi 1024"
    using e(4) by (intro power_int_increasing) simp_all
  finally have small: "\<not> 2 powi 1024 \<le> rat_of_int m * 2 powi (e - 52)" by simp
  show ?thesis
    unfolding r64_def Let_def
    by (simp only: abs_of_pos[OF qpos] fl rd small ne qpos if_False if_True)
qed

lemma r64_eval:
  assumes e: "2 powi e \<le> q" "q < 2 powi (e + 1)" "- 1022 \<le> e" "e < 1023"
    and m: "of_int m - 1 / 2 < q / 2 powi (e - 52)" "q / 2 powi (e - 52) < of_int m + 1 / 2"
      "m < 2 ^ 53"
  shows "r64 q = Fin (of_int m * 2 powi (e - 52))"
  using r64_at[OF e round_half_even_near[OF m(1,2)] m(3)] .

text \<open>
  A value halfway between two neighbours goes to the one with the even significand,
  and \<open>toFixed(2)\<close> takes a value halfway between two multiples of 0.01 upwards:
  \<open>(0.125).toFixed(2)\<close> is \<open>0.13\<close>.
\<close>

lemma round_half_even_ties:
  "round_half_even (5 / 2) = 2" "round_half_even (7 / 2) = 4" "round_half_even (- 5 / 2) = - 2"
proof -
  have f: "\<lfloor>(5::rat) / 2\<rfloor> = 2" "\<lfloor>(7::rat) / 2\<rfloor> = 3" "\<lfloor>- (5::rat) / 2\<rfloor> = - 3"
    by (rule floor_unique; simp)+
  show "round_half_even (5 / 2) = 2" "round_half_even (7 / 2) = 4"
    "round_half_even (- 5 / 2) = - 2"
    using f by (simp_all add: round_half_even_def Let_def)
qed

lemma r64_ties:
  "r64 (2 ^ 53 + 1) = Fin (2 ^ 53)" "r64 (2 ^ 53 + 3) = Fin (2 ^ 53 + 4)"
proof -
  have f1: "\<lfloor>(9007199254740993::rat) / 2\<rfloor> = 4503599627370496"
    by (rule floor_unique) simp_all
  have f3: "\<lfloor>(9007199254740995::rat) / 2\<rfloor> = 4503599627370497"
    by (rule floor_unique) simp_all
  have r1: "round_half_even (9007199254740993 / 2 powi (53 - 52)) = 4503599627370496"
    using f1 by (simp add: round_half_even_def Let_def)
  have r3: "round_half_even (9007199254740995 / 2 powi (53 - 52)) = 4503599627370498"
    using f3 by (simp add: round_half_even_def Let_def)
  have "r64 9007199254740993 = Fin (of_int 4503599627370496 * 2 powi (53 - 52))"
    by (rule r64_at[OF _ _ _ _ r1]) simp_all
  then show "r64 (2 ^ 53 + 1) = Fin (2 ^ 53)" by simp
  have "r64 9007199254740995 = Fin (of_int 4503599627370498 * 2 powi (53 - 52))"
    by (rule r64_at[OF _ _ _ _ r3]) simp_all
  then show "r64 (2 ^ 53 + 3) = Fin (2 ^ 53 + 4)" by simp
qed

lemma toFixed2_tie: "toFixed2_Number (Fin (1 / 8)) = decimal_to_number ''0.13''"
proof -
  have f: "\<lfloor>\<bar>1 / 8 :: rat\<bar> * 100 + 1 / 2\<rfloor> = 13" by (rule floor_unique) simp_all
  have g: "\<not> (10::rat) ^ 21 \<le> \<bar>1 / 8\<bar>" by simp
  have a: "toFixed2_Number (Fin (1 / 8)) = r64 (13 / 100)"
    unfolding toFixed2_Number_def Let_def jsnum.case if_not_P[OF g] f by simp
  have v: "digits_value ''0'' = 0" "digits_value ''13'' = 13" by (simp_all add: digits_value_def)
  have b: "decimal_to_number ''0.13'' = r64 (13 / 100)"
    by (simp add: decimal_to_number_def v)
  show ?thesis unfolding a b ..
qed

lemma third_percent:
  "jmul (jdiv (Fin 1) (Fin 3)) (Fin 100) = Fin (4691249611844266 / 2 ^ 47)"
proof -
  have a: "r64 (1 / 3) = Fin (6004799503160661 / 2 ^ 54)"
    using r64_eval[of "- 2" "1 / 3" 6004799503160661]
    by (simp add: power_int_minus)
  have b: "r64 (6004799503160661 / 2 ^ 54 * 100) = Fin (4691249611844266 / 2 ^ 47)"
    using r64_eval[of 5 "6004799503160661 / 2 ^ 54 * 100" 4691249611844266]
    by (simp add: power_int_minus)
  show ?thesis using a b by simp
qed

lemma number_33_33:
  "decimal_to_number ''33.33'' = Fin (4690780486883082 / 2 ^ 47)"
proof -
  have v: "digits_value ''33'' = 33" by (simp add: digits_value_def)
  have r: "r64 (3333 / 100) = Fin (4690780486883082 / 2 ^ 47)"
    using r64_eval[of 5 "3333 / 100" 4690780486883082]
    by (simp add: power_int_minus)
  have "(33::rat) + 33 / 10 ^ 2 = 3333 / 100" by simp
  then show ?thesis using r by (simp add: decimal_to_number_def v)
qed

text \<open>
  \<open>Number(x.toFixed(2))\<close> for \<open>0 \<le> x < 10^21\<close> is the number nearest to \<open>n / 100\<close>,
  where \<open>n\<close> is the integer nearest to \<open>100 * x\<close>, the larger one of two.
\<close>

lemma toFixed2_rounds:
  assumes "0 \<le> q" "q < 10 ^ 21"
  shows "\<exists>n::int. of_int n \<le> 100 * q + 1 / 2 \<and> 100 * q + 1 / 2 < of_int n + 1
           \<and> toFixed2_Number (Fin q) = r64 (of_int n / 100)"
proof (intro exI[of _ "\<lfloor>q * 100 + 1 / 2\<rfloor>"] conjI)
  have "of_int \<lfloor>q * 100 + 1 / 2\<rfloor> \<le> q * 100 + 1 / 2" by (rule of_int_floor_le)
  then show "of_int \<lfloor>q * 100 + 1 / 2\<rfloor> \<le> 100 * q + 1 / 2" by (simp add: mult.commute)
  have "q * 100 + 1 / 2 < of_int \<lfloor>q * 100 + 1 / 2\<rfloor> + 1" by linarith
  then show "100 * q + 1 / 2 < of_int \<lfloor>q * 100 + 1 / 2\<rfloor> + 1" by (simp add: mult.commute)
  show "toFixed2_Number (Fin q) = r64 (of_int \<lfloor>q * 100 + 1 / 2\<rfloor> / 100)"
    using assms by (simp add: toFixed2_Number_def Let_def abs_of_nonneg not_le)
qed

lemma percent_nonneg:
  assumes "at_least_zero (Some h)" "greater_zero (Some s)"
    "jmul (jdiv h s) (Fin 100) = Fin q"
  shows "0 \<le> q"
proof -
  have fin: "jmul (Fin a) (Fin 100) = Fin q \<Longrightarrow> 0 \<le> a \<Longrightarrow> 0 \<le> q" for a
    using r64_nonneg[of "a * 100"] by auto
  show ?thesis
  proof (cases h)
    case (Fin a)
    show ?thesis
    proof (cases s)
      case (Fin b)
      with assms \<open>h = Fin a\<close> have ab: "0 \<le> a" "0 < b" "jmul (r64 (a / b)) (Fin 100) = Fin q"
        by (simp_all add: at_least_zero_def greater_zero_def)
      from r64_nonneg[of "a / b"] ab(1,2) consider "r64 (a / b) = PosInf"
        | r where "0 \<le> r" "r64 (a / b) = Fin r" by auto
      then show ?thesis
      proof cases
        case 1
        with ab(3) show ?thesis by simp
      next
        case 2
        with ab(3) fin show ?thesis by simp
      qed
    next
      case PosInf
      with assms \<open>h = Fin a\<close> show ?thesis by (simp add: r64_def)
    qed (use assms in \<open>simp_all add: greater_zero_def\<close>)
  next
    case PosInf
    with assms show ?thesis
      by (cases s) (simp_all add: greater_zero_def split: if_splits)
  qed (use assms in \<open>simp_all add: at_least_zero_def\<close>)
qed

text \<open>
  Claim C8. Let the labels include \<open>Headshot %\<close> and let \<open>st\<close> be the stats as read
  from the row. If Shots Hit was read as a number greater than 0 and Headshots was
  read as a number that is at least 0, the final \<open>Headshot %\<close> is
  \<open>Number((Headshots / Shots Hit * 100).toFixed(2))\<close>, whatever was read for it from
  the cell or the tooltip: when the percentage \<open>x\<close> computed in binary64 arithmetic
  is below \<open>10^21\<close>, it is the binary64 number nearest to \<open>n / 100\<close>, where \<open>n\<close> is the
  integer nearest to \<open>100 * x\<close> (the larger one of two), that is \<open>x\<close> rounded to 2
  decimal places; a percentage of \<open>10^21\<close> or more is kept as it is. In every other case, which is Shots Hit absent, zero or no number,
  or Headshots absent or no number, the stats are returned as read. Every other
  metric is returned as read. For Shots Hit = 200 and Headshots = 50 the final value
  is exactly 25.
\<close>

theorem extractStatsFromRow_headshot_pct:
  assumes "readLabels row columnMap 0 (labels_for columnMap metricLabels) Map.empty = Inr st"
    and "''Headshot %'' \<in> set (labels_for columnMap metricLabels)"
  shows "\<exists>final. extractStatsFromRow row columnMap metricLabels = Inr final
     \<and> (\<forall>k. k \<noteq> ''Headshot %'' \<longrightarrow> final k = st k)
     \<and> (\<not> (greater_zero (st ''Shots Hit'') \<and> at_least_zero (st ''Headshots'')) \<longrightarrow> final = st)
     \<and> (\<forall>h s. st ''Headshots'' = Some h \<and> at_least_zero (Some h)
               \<and> st ''Shots Hit'' = Some s \<and> greater_zero (Some s)
           \<longrightarrow> final ''Headshot %'' = Some (toFixed2_Number (jmul (jdiv h s) (Fin 100))))
     \<and> (\<forall>h s x. st ''Headshots'' = Some h \<and> at_least_zero (Some h)
               \<and> st ''Shots Hit'' = Some s \<and> greater_zero (Some s)
               \<and> jmul (jdiv h s) (Fin 100) = Fin x \<and> x < 10 ^ 21
           \<longrightarrow> (\<exists>n::int. of_int n \<le> 100 * x + 1 / 2 \<and> 100 * x + 1 / 2 < of_int n + 1
                  \<and> final ''Headshot %'' = Some (r64 (of_int n / 100))))
     \<and> (\<forall>h s x. st ''Headshots'' = Some h \<and> at_least_zero (Some h)
               \<and> st ''Shots Hit'' = Some s \<and> greater_zero (Some s)
               \<and> jmul (jdiv h s) (Fin 100) = Fin x \<and> 10 ^ 21 \<le> x
           \<longrightarrow> final ''Headshot %'' = Some (Fin x))
     \<and> (st ''Headshots'' = Some (Fin 50) \<and> st ''Shots Hit'' = Some (Fin 200)
           \<longrightarrow> final ''Headshot %'' = Some (Fin 25))"
proof -
  let ?labels = "labels_for columnMap metricLabels"
  let ?final = "recomputeHeadshotPct ?labels st"
  have ex: "extractStatsFromRow row columnMap metricLabels = Inr ?final"
    using assms(1) by (simp add: extractStatsFromRow_def Let_def)
  have a: "?final ''Headshot %'' = Some (toFixed2_Number (jmul (jdiv h s) (Fin 100)))"
    if "st ''Headshots'' = Some h" "at_least_zero (Some h)" "st ''Shots Hit'' = Some s"
      "greater_zero (Some s)"
    for h s
    using that assms(2) by (simp add: recomputeHeadshotPct_def)
  have b: "?final = st" if "\<not> (greater_zero (st ''Shots Hit'') \<and> at_least_zero (st ''Headshots''))"
    using that by (auto simp: recomputeHeadshotPct_def)
  have c: "?final k = st k" if "k \<noteq> ''Headshot %''" for k
    using that by (auto simp: recomputeHeadshotPct_def split: option.splits)
  have r: "\<exists>n::int. of_int n \<le> 100 * x + 1 / 2 \<and> 100 * x + 1 / 2 < of_int n + 1
                  \<and> ?final ''Headshot %'' = Some (r64 (of_int n / 100))"
    if "st ''Headshots'' = Some h" "at_least_zero (Some h)" "st ''Shots Hit'' = Some s"
      "greater_zero (Some s)" "jmul (jdiv h s) (Fin 100) = Fin x" "x < 10 ^ 21"
    for h s x
  proof -
    have "0 \<le> x" using percent_nonneg[OF that(2,4,5)] .
    from toFixed2_rounds[OF this that(6)] obtain n :: int where
      "of_int n \<le> 100 * x + 1 / 2" "100 * x + 1 / 2 < of_int n + 1"
      "toFixed2_Number (Fin x) = r64 (of_int n / 100)" by blast
    with a[OF that(1-4)] that(5) show ?thesis by auto
  qed
  have l: "?final ''Headshot %'' = Some (Fin x)"
    if "st ''Headshots'' = Some h" "at_least_zero (Some h)" "st ''Shots Hit'' = Some s"
      "greater_zero (Some s)" "jmul (jdiv h s) (Fin 100) = Fin x" "10 ^ 21 \<le> x"
    for h s x
  proof -
    have "(0::rat) \<le> 10 ^ 21" by simp
    from this that(6) have "0 \<le> x" by (rule order_trans)
    then have "toFixed2_Number (Fin x) = Fin x"
      using that(6) by (simp add: toFixed2_Number_def abs_of_nonneg)
    with a[OF that(1-4)] that(5) show ?thesis by simp
  qed
  have d: "?final ''Headshot %'' = Some (Fin 25)"
    if "st ''Headshots'' = Some (Fin 50)" "st ''Shots Hit'' = Some (Fin 200)"
    using a[OF that(1) _ that(2)] headshot_example
    by (simp add: greater_zero_def at_least_zero_def)
  show ?thesis
  proof (intro exI[of _ ?final] conjI)
    show "extractStatsFromRow row columnMap metricLabels = Inr ?final" by (rule ex)
    show "\<forall>k. k \<noteq> ''Headshot %'' \<longrightarrow> ?final k = st k" using c by blast
    show "\<not> (greater_zero (st ''Shots Hit'') \<and> at_least_zero (st ''Headshots''))
        \<longrightarrow> ?final = st"
      using b by blast
    show "\<forall>h s. st ''Headshots'' = Some h \<and> at_least_zero (Some h)
               \<and> st ''Shots Hit'' = Some s \<and> greater_zero (Some s)
           \<longrightarrow> ?final ''Headshot %'' = Some (toFixed2_Number (jmul (jdiv h s) (Fin 100)))"
      using a by blast
    show "\<forall>h s x. st ''Headshots'' = Some h \<and> at_least_zero (Some h)
               \<and> st ''Shots Hit'' = Some s \<and> greater_zero (Some s)
               \<and> jmul (jdiv h s) (Fin 100) = Fin x \<and> x < 10 ^ 21
           \<longrightarrow> (\<exists>n::int. of_int n \<le> 100 * x + 1 / 2 \<and> 100 * x + 1 / 2 < of_int n + 1
                  \<and> ?final ''Headshot %'' = Some (r64 (of_int n / 100)))"
    proof (intro allI impI)
      fix h s x
      assume "st ''Headshots'' = Some h \<and> at_least_zero (Some h)
               \<and> st ''Shots Hit'' = Some s \<and> greater_zero (Some s)
               \<and> jmul (jdiv h s) (Fin 100) = Fin x \<and> x < 10 ^ 21"
      then show "\<exists>n::int. of_int n \<le> 100 * x + 1 / 2 \<and> 100 * x + 1 / 2 < of_int n + 1
                  \<and> ?final ''Headshot %'' = Some (r64 (of_int n / 100))"
        using r[of h s x] by simp
    qed
    show "\<forall>h s x. st ''Headshots'' = Some h \<and> at_least_zero (Some h)
               \<and> st ''Shots Hit'' = Some s \<and> greater_zero (Some s)
               \<and> jmul (jdiv h s) (Fin 100) = Fin x \<and> 10 ^ 21 \<le> x
           \<longrightarrow> ?final ''Headshot %'' = Some (Fin x)"
    proof (intro allI impI)
      fix h s x
      assume "st ''Headshots'' = Some h \<and> at_least_zero (Some h)
               \<and> st ''Shots Hit'' = Some s \<and> greater_zero (Some s)
               \<and> jmul (jdiv h s) (Fin 100) = Fin x \<and> 10 ^ 21 \<le> x"
      then show "?final ''Headshot %'' = Some (Fin x)"
        using l[of h s x] by simp
    qed
    show "st ''Headshots'' = Some (Fin 50) \<and> st ''Shots Hit'' = Some (Fin 200)
           \<longrightarrow> ?final ''Headshot %'' = Some (Fin 25)"
      using d by blast
  qed
qed

lemma thirds_read:
  "readLabels thirds_row sample_columns 0 (labels_for sample_columns (Some sample_labels))
     Map.empty =
   Inr [''Shots Hit'' \<mapsto> Fin 3, ''Headshots'' \<mapsto> Fin 1, ''Headshot %'' \<mapsto> Fin 40]"
proof -
  have n: "numeric_chars (trim ''3'') = ''3''" "numeric_chars (trim ''1'') = ''1''"
    "numeric_chars ''40 %'' = ''40''"
    by (simp_all add: numeric_chars_def trim_def is_space_def is_digit_def)
  have v: "digits_value ''3'' = 3" "digits_value ''1'' = 1" "digits_value ''40'' = 40"
    "digits_value [] = 0"
    by (simp_all add: digits_value_def)
  have r: "r64 3 = Fin 3" "r64 1 = Fin 1" "r64 40 = Fin 40"
    using r64_of_nat_small[of 3] r64_of_nat_small[of 1] r64_of_nat_small[of 40] by simp_all
  have d: "decimal_to_number ''3'' = Fin 3" "decimal_to_number ''1'' = Fin 1"
    "decimal_to_number ''40'' = Fin 40"
    using r by (simp_all add: decimal_to_number_def v)
  show ?thesis
    by (simp add: labels_for_def sample_labels_def sample_columns_def thirds_row_def
        getCol_def getNumeric_def getTooltipNumber_def n d)
qed

theorem extractStatsFromRow_headshot_pct_witness:
  "readLabels thirds_row sample_columns 0 (labels_for sample_columns (Some sample_labels))
     Map.empty =
   Inr [''Shots Hit'' \<mapsto> Fin 3, ''Headshots'' \<mapsto> Fin 1, ''Headshot %'' \<mapsto> Fin 40]
   \<and> ''Headshot %'' \<in> set (labels_for sample_columns (Some sample_labels))
   \<and> greater_zero (Some (Fin 3)) \<and> at_least_zero (Some (Fin 1))
   \<and> jmul (jdiv (Fin 1) (Fin 3)) (Fin 100) = Fin (4691249611844266 / 2 ^ 47)
   \<and> (4691249611844266 / 2 ^ 47 :: rat) < 10 ^ 21
   \<and> (\<exists>final. extractStatsFromRow thirds_row sample_columns (Some sample_labels) = Inr final
         \<and> final ''Headshot %'' = Some (decimal_to_number ''33.33'')
         \<and> final ''Headshot %'' \<noteq> Some (jmul (jdiv (Fin 1) (Fin 3)) (Fin 100))
         \<and> final ''Headshots'' = Some (Fin 1)
         \<and> final ''Shots Hit'' = Some (Fin 3))
   \<and> readLabels sample_row sample_columns 0 (labels_for sample_columns (Some sample_labels))
     Map.empty =
   Inr [''Shots Hit'' \<mapsto> Fin 200, ''Headshots'' \<mapsto> Fin 50, ''Headshot %'' \<mapsto> Fin (75 / 2)]
   \<and> (\<exists>final. extractStatsFromRow sample_row sample_columns (Some sample_labels) = Inr final
         \<and> final ''Headshot %'' = Some (Fin 25)
         \<and> final ''Headshots'' = Some (Fin 50)
         \<and> final ''Shots Hit'' = Some (Fin 200))"
proof -
  let ?st = "[''Shots Hit'' \<mapsto> Fin 200, ''Headshots'' \<mapsto> Fin 50, ''Headshot %'' \<mapsto> Fin (75 / 2)]"
  let ?tt = "[''Shots Hit'' \<mapsto> Fin 3, ''Headshots'' \<mapsto> Fin 1, ''Headshot %'' \<mapsto> Fin (40::rat)]"
  define x :: rat where "x = 4691249611844266 / 2 ^ 47"
  have h2: "''Headshot %'' \<in> set (labels_for sample_columns (Some sample_labels))"
    by (simp add: labels_for_def sample_labels_def)
  have g: "greater_zero (Some (Fin 3))" "at_least_zero (Some (Fin 1))"
    by (simp_all add: greater_zero_def at_least_zero_def)
  have pc: "jmul (jdiv (Fin 1) (Fin 3)) (Fin 100) = Fin x"
    unfolding x_def by (rule third_percent)
  have lt: "x < 10 ^ 21" by (simp add: x_def)
  have t: "?tt ''Headshots'' = Some (Fin 1)" "?tt ''Shots Hit'' = Some (Fin 3)" by simp_all
  from extractStatsFromRow_headshot_pct[OF thirds_read h2] obtain final where
    f: "extractStatsFromRow thirds_row sample_columns (Some sample_labels) = Inr final"
       "\<forall>k. k \<noteq> ''Headshot %'' \<longrightarrow> final k = ?tt k"
       "\<forall>h s x. ?tt ''Headshots'' = Some h \<and> at_least_zero (Some h)
               \<and> ?tt ''Shots Hit'' = Some s \<and> greater_zero (Some s)
               \<and> jmul (jdiv h s) (Fin 100) = Fin x \<and> x < 10 ^ 21
           \<longrightarrow> (\<exists>n::int. of_int n \<le> 100 * x + 1 / 2 \<and> 100 * x + 1 / 2 < of_int n + 1
                  \<and> final ''Headshot %'' = Some (r64 (of_int n / 100)))"
    by (elim exE conjE) (rule that; assumption)
  from f(3)[rule_format, of "Fin 1" "Fin 3" x] t g pc lt obtain n :: int where
    n: "of_int n \<le> 100 * x + 1 / 2" "100 * x + 1 / 2 < of_int n + 1"
       "final ''Headshot %'' = Some (r64 (of_int n / 100))"
    by blast
  have "\<lfloor>100 * x + 1 / 2\<rfloor> = n" using n(1,2) by (rule floor_unique)
  moreover have "\<lfloor>100 * x + 1 / 2\<rfloor> = 3333"
    unfolding x_def by (rule floor_unique) simp_all
  ultimately have n3: "n = 3333" by simp
  have v: "digits_value ''33'' = 33" by (simp add: digits_value_def)
  have "(33::rat) + 33 / 10 ^ 2 = 3333 / 100" by simp
  then have dec: "decimal_to_number ''33.33'' = r64 (3333 / 100)"
    by (simp add: decimal_to_number_def v)
  have p1: "final ''Headshot %'' = Some (decimal_to_number ''33.33'')"
    using n(3) n3 dec by simp
  have p2: "final ''Headshot %'' \<noteq> Some (jmul (jdiv (Fin 1) (Fin 3)) (Fin 100))"
    unfolding p1 number_33_33 third_percent by simp
  from f(2) have p3: "final ''Headshots'' = Some (Fin 1)" "final ''Shots Hit'' = Some (Fin 3)"
    by simp_all
  from f(1) p1 p2 p3 have first:
    "\<exists>final. extractStatsFromRow thirds_row sample_columns (Some sample_labels) = Inr final
         \<and> final ''Headshot %'' = Some (decimal_to_number ''33.33'')
         \<and> final ''Headshot %'' \<noteq> Some (jmul (jdiv (Fin 1) (Fin 3)) (Fin 100))
         \<and> final ''Headshots'' = Some (Fin 1)
         \<and> final ''Shots Hit'' = Some (Fin 3)"
    by blast
  have s: "?st ''Headshots'' = Some (Fin 50)" "?st ''Shots Hit'' = Some (Fin 200)"
    by simp_all
  from extractStatsFromRow_headshot_pct[OF sample_read h2] obtain final2 where
    f2: "extractStatsFromRow sample_row sample_columns (Some sample_labels) = Inr final2"
       "?st ''Headshots'' = Some (Fin 50) \<and> ?st ''Shots Hit'' = Some (Fin 200)
           \<longrightarrow> final2 ''Headshot %'' = Some (Fin 25)"
       "\<forall>k. k \<noteq> ''Headshot %'' \<longrightarrow> final2 k = ?st k"
    by (elim exE conjE) (rule that; assumption)
  from f2(2) s have q1: "final2 ''Headshot %'' = Some (Fin 25)" by blast
  from f2(3) have q2: "final2 ''Headshots'' = Some (Fin 50)" "final2 ''Shots Hit'' = Some (Fin 200)"
    by simp_all
  from f2(1) q1 q2 have second:
    "\<exists>final. extractStatsFromRow sample_row sample_columns (Some sample_labels) = Inr final
         \<and> final ''Headshot %'' = Some (Fin 25)
         \<and> final ''Headshots'' = Some (Fin 50)
         \<and> final ''Shots Hit'' = Some (Fin 200)"
    by blast
  from thirds_read h2 g pc lt first sample_read second show ?thesis
    unfolding x_def by blast
qed

lemma dotted_read:
  "readLabels dotted_row sample_columns 0 (labels_for sample_columns (Some sample_labels))
     Map.empty =
   Inr [''Shots Hit'' \<mapsto> Fin 10, ''Headshots'' \<mapsto> NaN, ''Headshot %'' \<mapsto> Fin 40]"
proof -
  have n: "numeric_chars (trim ''10'') = ''10''" "numeric_chars (trim ''1.2.3'') = ''1.2.3''"
    "numeric_chars ''40 %'' = ''40''"
    by (simp_all add: numeric_chars_def trim_def is_space_def is_digit_def)
  have v: "digits_value ''10'' = 10" "digits_value ''40'' = 40" "digits_value [] = 0"
    by (simp_all add: digits_value_def)
  have r: "r64 10 = Fin 10" "r64 40 = Fin 40"
    using r64_of_nat_small[of 10] r64_of_nat_small[of 40] by simp_all
  have d: "decimal_to_number ''10'' = Fin 10" "decimal_to_number ''40'' = Fin 40"
    "decimal_to_number ''1.2.3'' = NaN"
    using r by (simp_all add: decimal_to_number_def v)
  show ?thesis
    by (simp add: labels_for_def sample_labels_def sample_columns_def dotted_row_def
        getCol_def getNumeric_def getTooltipNumber_def n d)
qed

text \<open>
  Shots Hit is greater than 0 in both rows, and yet the value read from the tooltip
  stands: in the first the Headshots cell is no number, in the second Headshots is
  not among the labels.
\<close>

theorem extractStatsFromRow_headshot_pct_counterexample:
  "extractStatsFromRow dotted_row sample_columns (Some sample_labels)
     = Inr [''Shots Hit'' \<mapsto> Fin 10, ''Headshots'' \<mapsto> NaN, ''Headshot %'' \<mapsto> Fin 40]
   \<and> greater_zero (Some (Fin 10))
   \<and> toFixed2_Number (jmul (jdiv NaN (Fin 10)) (Fin 100)) = NaN
   \<and> extractStatsFromRow sample_row sample_columns (Some [''Shots Hit'', ''Headshot %''])
     = Inr [''Shots Hit'' \<mapsto> Fin 200, ''Headshot %'' \<mapsto> Fin (75 / 2)]
   \<and> greater_zero (Some (Fin 200))"
proof -
  have a: "extractStatsFromRow dotted_row sample_columns (Some sample_labels)
     = Inr [''Shots Hit'' \<mapsto> Fin 10, ''Headshots'' \<mapsto> NaN, ''Headshot %'' \<mapsto> Fin 40]"
    using dotted_read
    by (simp add: extractStatsFromRow_def Let_def recomputeHeadshotPct_def at_least_zero_def)
  have n: "numeric_chars (trim ''200'') = ''200''" "numeric_chars ''37.5 %'' = ''37.5''"
    "numeric_chars [] = []"
    by (simp_all add: numeric_chars_def trim_def is_space_def is_digit_def)
  have b: "extractStatsFromRow sample_row sample_columns (Some [''Shots Hit'', ''Headshot %''])
     = Inr [''Shots Hit'' \<mapsto> Fin 200, ''Headshot %'' \<mapsto> Fin (75 / 2)]"
    by (simp add: extractStatsFromRow_def Let_def recomputeHeadshotPct_def at_least_zero_def
        labels_for_def sample_columns_def sample_row_def
        getCol_def getNumeric_def getTooltipNumber_def n sample_values)
  have c: "toFixed2_Number (jmul (jdiv NaN (Fin 10)) (Fin 100)) = NaN"
    by (simp add: toFixed2_Number_def)
  from a b c show ?thesis by (simp add: greater_zero_def)
qed

section \<open>Verified properties: players missing on the pvp tab\<close>

lemma foldE_snoc:
  "foldE f (xs @ [x]) st = (case foldE f xs st of Inl err \<Rightarrow> Inl err | Inr st' \<Rightarrow> f x st')"
  by (induction xs arbitrary: st) (auto split: sum.splits)

lemma enumerate_upt: "enumerate 0 ps = map (\<lambda>i. (i, ps ! i)) [0..<length ps]"
  by (rule nth_equalityI) (simp_all add: nth_enumerate_eq)

lemma missing_upto_Suc:
  "missing_upto page ps (Suc k) =
     missing_upto page ps k @
       (case playerStats page ''pvp'' k of Inl err \<Rightarrow> [missing_record (ps ! k) err] | Inr v \<Rightarrow> [])"
  by (simp add: missing_upto_def)

lemma tabEntries_shape:
  assumes "''pvp'' \<in> set (tabEntries opts)"
  shows "\<exists>rest. tabEntries opts = ''pvp'' # rest \<and> ''pvp'' \<notin> set rest"
  using assms
  by (auto simp: tabEntries_def TAB_KEYS_def Let_def split: option.splits if_splits)

text \<open>What \<open>ensureTabReady\<close> changes.\<close>

lemma ensureTabReady_effect:
  assumes "ensureTabReady page t st = Inr (cached, st')"
  shows "s_missing st' = s_missing st" and "s_missingIndexes st' = s_missingIndexes st"
    and "\<And>t'. t' \<noteq> t \<Longrightarrow> s_tabs st' t' = s_tabs st t'"
    and "s_tabs st' t = s_tabs st t \<or> (\<exists>td. s_tabs st' t = Some td \<and> t_stats td = Some Map.empty)"
    and "tabs_ready st \<Longrightarrow> tabs_ready st' \<and> s_tabs st' t \<noteq> None"
  using assms
  by (auto simp: ensureTabReady_def tabs_ready_def split: option.splits sum.splits prod.splits)

lemma foldE_invariant:
  assumes "foldE f xs st = Inr st'" and "I st"
    and "\<And>x s s'. x \<in> set xs \<Longrightarrow> I s \<Longrightarrow> f x s = Inr s' \<Longrightarrow> I s'"
  shows "I st'"
  using assms
proof (induction xs arbitrary: st)
  case Nil
  then show ?case by simp
next
  case (Cons x xs)
  from Cons.prems(1) obtain s1 where s1: "f x st = Inr s1" "foldE f xs s1 = Inr st'"
    by (auto split: sum.splits)
  have "I s1" using Cons.prems(3)[of x st s1] Cons.prems(2) s1(1) by simp
  show ?case
  proof (rule Cons.IH[OF s1(2) \<open>I s1\<close>])
    fix y s s' assume "y \<in> set xs" "I s" "f y s = Inr s'"
    then show "I s'" using Cons.prems(3)[of y s s'] by simp
  qed
qed

lemma stats_from_found_empty: "stats_from_found page ps t Map.empty"
  by (simp add: stats_from_found_def)

lemma stats_from_found_upd:
  assumes "stats_from_found page ps t m" and "j < length ps" and "\<not> failed_on_pvp page j"
    and "playerStats page t j = Inr v"
  shows "stats_from_found page ps t (m(to_str (label_of (ps ! j)) \<mapsto> v))"
  using assms unfolding stats_from_found_def by auto

text \<open>The per-tab traversal: the inner loop on the pvp tab.\<close>

lemma perTab_pvp_fold:
  assumes "fold (perTab_step page sp ''pvp'') (map (\<lambda>i. (i, ps ! i)) [0..<k]) (m0, st0) = (m, st)"
  shows "s_missing st = s_missing st0 @ missing_upto page ps k \<and>
         s_missingIndexes st = s_missingIndexes st0 \<union> {j. j < k \<and> failed_on_pvp page j} \<and>
         s_tabs st = s_tabs st0 \<and> s_tabCache st = s_tabCache st0"
  using assms
proof (induction k arbitrary: m st)
  case 0
  then show ?case by (simp add: missing_upto_def)
next
  case (Suc k)
  obtain m1 st1 where
    one: "fold (perTab_step page sp ''pvp'') (map (\<lambda>i. (i, ps ! i)) [0..<k]) (m0, st0) = (m1, st1)"
    by (cases "fold (perTab_step page sp ''pvp'') (map (\<lambda>i. (i, ps ! i)) [0..<k]) (m0, st0)")
  with Suc.prems have step: "perTab_step page sp ''pvp'' (k, ps ! k) (m1, st1) = (m, st)"
    by simp
  note ih = Suc.IH[OF one]
  have set_eq: "{j. j < Suc k \<and> failed_on_pvp page j} =
        {j. j < k \<and> failed_on_pvp page j} \<union> (if failed_on_pvp page k then {k} else {})"
    by (auto simp: less_Suc_eq)
  show ?case
  proof (cases "playerStats page ''pvp'' k")
    case (Inl err)
    with step have "st = mark_missing k (ps ! k) err st1"
      by (simp add: perTab_step_def skipped_def)
    with ih Inl show ?thesis
      unfolding set_eq
      by (auto simp: mark_missing_def missing_upto_Suc failed_on_pvp_def)
  next
    case (Inr v)
    with step have "st = st1"
      by (simp add: perTab_step_def skipped_def)
    with ih Inr show ?thesis
      unfolding set_eq
      by (auto simp: missing_upto_Suc failed_on_pvp_def)
  qed
qed

text \<open>The per-tab traversal: the inner loop on another tab.\<close>

lemma perTab_other_fold:
  assumes "fold (perTab_step page True t) (map (\<lambda>i. (i, ps ! i)) [0..<k]) (m0, st0) = (m, st)"
    and "t \<noteq> ''pvp''" and "k \<le> length ps"
    and "s_missingIndexes st0 = {j. j < length ps \<and> failed_on_pvp page j}"
    and "stats_from_found page ps t m0"
  shows "st = st0 \<and> stats_from_found page ps t m"
  using assms(1,3)
proof (induction k arbitrary: m st)
  case 0
  with assms(5) show ?case by simp
next
  case (Suc k)
  obtain m1 st1 where
    one: "fold (perTab_step page True t) (map (\<lambda>i. (i, ps ! i)) [0..<k]) (m0, st0) = (m1, st1)"
    by (cases "fold (perTab_step page True t) (map (\<lambda>i. (i, ps ! i)) [0..<k]) (m0, st0)")
  with Suc.prems have step: "perTab_step page True t (k, ps ! k) (m1, st1) = (m, st)"
    by simp
  from Suc.IH[OF one] Suc.prems(2) have ih: "st1 = st0" "stats_from_found page ps t m1"
    by simp_all
  from Suc.prems(2) have k: "k < length ps" by simp
  show ?case
  proof (cases "failed_on_pvp page k")
    case True
    with k assms(4) ih(1) have "skipped True st1 k t"
      by (simp add: skipped_def assms(2))
    with step ih show ?thesis by (simp add: perTab_step_def)
  next
    case False
    with assms(4) ih(1) have ns: "\<not> skipped True st1 k t"
      by (simp add: skipped_def)
    show ?thesis
    proof (cases "playerStats page t k")
      case (Inl err)
      with step ns ih assms(2) show ?thesis by (simp add: perTab_step_def)
    next
      case (Inr v)
      with step ns have "st = st1" "m = m1(to_str (label_of (ps ! k)) \<mapsto> v)"
        by (simp_all add: perTab_step_def)
      with ih stats_from_found_upd[OF ih(2) k False Inr] show ?thesis by (simp del: fun_upd_apply)
    qed
  qed
qed

lemma found_stats_only_upd_pvp:
  "found_stats_only page ps tm \<Longrightarrow> found_stats_only page ps (tm(''pvp'' \<mapsto> td))"
  by (simp add: found_stats_only_def)

lemma found_stats_only_upd:
  "found_stats_only page ps tm \<Longrightarrow> stats_from_found page ps t (tab_stats (Some td)) \<Longrightarrow>
   found_stats_only page ps (tm(t \<mapsto> td))"
  by (simp add: found_stats_only_def)

lemma tabs_ready_upd:
  "tabs_ready st \<Longrightarrow> tabs_ready (st\<lparr>s_tabs := (s_tabs st)(t \<mapsto> td)\<rparr>)"
  by (simp add: tabs_ready_def)

lemma ensureTabReady_invariant:
  assumes "ensureTabReady page t st = Inr (cached, st')" and "pass_invariant page ps k st"
  shows "pass_invariant page ps k st' \<and> s_tabs st' t \<noteq> None"
proof -
  note e = ensureTabReady_effect[OF assms(1)]
  from assms(2) have inv: "tabs_ready st" "s_missing st = missing_upto page ps k"
    "s_missingIndexes st = {j. j < k \<and> failed_on_pvp page j}"
    "found_stats_only page ps (s_tabs st)"
    by (simp_all add: pass_invariant_def)
  have f: "found_stats_only page ps (s_tabs st')"
    unfolding found_stats_only_def
  proof (intro allI impI)
    fix t' td assume a: "t' \<noteq> ''pvp'' \<and> s_tabs st' t' = Some td"
    show "stats_from_found page ps t' (tab_stats (Some td))"
    proof (cases "s_tabs st' t' = s_tabs st t'")
      case True
      with a inv(4) show ?thesis by (simp add: found_stats_only_def)
    next
      case False
      with e(3)[of t'] have "t' = t" by auto
      with False e(4) a have "t_stats td = Some Map.empty" by auto
      then show ?thesis by (simp add: tab_stats_def stats_from_found_empty)
    qed
  qed
  from e(1,2) e(5)[OF inv(1)] inv f show ?thesis
    by (simp add: pass_invariant_def)
qed

text \<open>The per-tab traversal: one tab.\<close>

lemma perTab_tab_pvp:
  assumes "perTab_tab page sp ps ''pvp'' st = Inr st'" and "pass_invariant page ps 0 st"
  shows "pass_invariant page ps (length ps) st'"
proof -
  from assms(1) obtain columnMap metrics st1 m st2 where
    r: "ensureTabReady page ''pvp'' st = Inr ((columnMap, metrics), st1)"
    and f: "fold (perTab_step page sp ''pvp'') (enumerate 0 ps) (Map.empty, st1) = (m, st2)"
    and out: "st' = st2\<lparr>s_tabs := (s_tabs st2)(''pvp'' \<mapsto>
        \<lparr>t_metrics = Some metrics, t_stats = Some m, t_columnMap = Some columnMap\<rparr>)\<rparr>"
    by (auto simp: perTab_tab_def split: sum.splits prod.splits)
  from ensureTabReady_invariant[OF r assms(2)] have i1: "pass_invariant page ps 0 st1" by simp
  from perTab_pvp_fold[OF f[unfolded enumerate_upt]] have
    e: "s_missing st2 = s_missing st1 @ missing_upto page ps (length ps)"
       "s_missingIndexes st2 = s_missingIndexes st1 \<union> {j. j < length ps \<and> failed_on_pvp page j}"
       "s_tabs st2 = s_tabs st1" "s_tabCache st2 = s_tabCache st1"
    by simp_all
  from i1 e have "tabs_ready st2" "s_missing st2 = missing_upto page ps (length ps)"
    "s_missingIndexes st2 = {j. j < length ps \<and> failed_on_pvp page j}"
    "found_stats_only page ps (s_tabs st2)"
    by (simp_all add: pass_invariant_def tabs_ready_def missing_upto_def)
  then show ?thesis
    unfolding out pass_invariant_def
    using tabs_ready_upd[of st2] found_stats_only_upd_pvp[of page ps "s_tabs st2"]
    by simp
qed

lemma perTab_tab_other:
  assumes "perTab_tab page True ps t st = Inr st'" and "t \<noteq> ''pvp''"
    and "pass_invariant page ps (length ps) st"
  shows "pass_invariant page ps (length ps) st'"
proof -
  from assms(1) obtain columnMap metrics st1 m st2 where
    r: "ensureTabReady page t st = Inr ((columnMap, metrics), st1)"
    and f: "fold (perTab_step page True t) (enumerate 0 ps) (Map.empty, st1) = (m, st2)"
    and out: "st' = st2\<lparr>s_tabs := (s_tabs st2)(t \<mapsto>
        \<lparr>t_metrics = Some metrics, t_stats = Some m, t_columnMap = Some columnMap\<rparr>)\<rparr>"
    by (auto simp: perTab_tab_def split: sum.splits prod.splits)
  from ensureTabReady_invariant[OF r assms(3)]
  have i1: "pass_invariant page ps (length ps) st1" by simp
  then have mi: "s_missingIndexes st1 = {j. j < length ps \<and> failed_on_pvp page j}"
    by (simp add: pass_invariant_def)
  from perTab_other_fold[OF f[unfolded enumerate_upt] assms(2) _ mi stats_from_found_empty]
  have e: "st2 = st1" "stats_from_found page ps t m" by simp_all
  have "stats_from_found page ps t (tab_stats (Some
      \<lparr>t_metrics = Some metrics, t_stats = Some m, t_columnMap = Some columnMap\<rparr>))"
    using e(2) by (simp add: tab_stats_def)
  with i1 e(1) show ?thesis
    unfolding out pass_invariant_def
    using tabs_ready_upd[of st1] found_stats_only_upd[of page ps "s_tabs st1" t]
    by simp
qed

lemma initial_invariant: "pass_invariant page ps 0 initial_state"
  by (simp add: pass_invariant_def initial_state_def tabs_ready_def missing_upto_def
      found_stats_only_def)

lemma perTab_loop_invariant:
  assumes "perTab_loop page True (''pvp'' # rest) ps initial_state = Inr st"
    and "''pvp'' \<notin> set rest"
  shows "pass_invariant page ps (length ps) st"
proof -
  from assms(1) obtain st1 where
    one: "perTab_tab page True ps ''pvp'' initial_state = Inr st1"
    and more: "foldE (perTab_tab page True ps) rest st1 = Inr st"
    by (auto simp: perTab_loop_def split: sum.splits)
  from perTab_tab_pvp[OF one initial_invariant]
  have i1: "pass_invariant page ps (length ps) st1" .
  show ?thesis
  proof (rule foldE_invariant[OF more, where I = "pass_invariant page ps (length ps)"])
    show "pass_invariant page ps (length ps) st1" by (rule i1)
  next
    fix t s s'
    assume "t \<in> set rest" "pass_invariant page ps (length ps) s"
      "perTab_tab page True ps t s = Inr s'"
    with assms(2) show "pass_invariant page ps (length ps) s'"
      by (intro perTab_tab_other[of page ps t s s']) auto
  qed
qed

text \<open>The per-player traversal: the step on the pvp tab.\<close>

lemma store_stats_ready:
  assumes "s_tabs st t \<noteq> None"
  shows "\<exists>td. store_stats t label values st =
     Inr (st\<lparr>s_tabs := (s_tabs st)(t \<mapsto> td)\<rparr>) \<and>
     tab_stats (Some td) = (tab_stats (s_tabs st t))(to_str label \<mapsto> values)"
  using assms by (auto simp: store_stats_def tab_stats_def split: option.splits)

lemma perPlayer_step_pvp:
  assumes "perPlayer_step page sp k (ps ! k) ''pvp'' st = Inr st'"
    and "pass_invariant page ps k st"
  shows "pass_invariant page ps (Suc k) st'"
proof -
  from assms(1) obtain cached st1 where
    r: "ensureTabReady page ''pvp'' st = Inr (cached, st1)"
    and nr: "searchReset page ''pvp'' k = None"
    and body: "(case (case playerStats page ''pvp'' k of
                   Inl err \<Rightarrow> Inl err
                 | Inr values \<Rightarrow> store_stats ''pvp'' (label_of (ps ! k)) values st1) of
                 Inr st2 \<Rightarrow> Inr st2
               | Inl err \<Rightarrow> Inr (mark_missing k (ps ! k) err st1)) = Inr st'"
    by (auto simp: perPlayer_step_def skipped_def split: sum.splits option.splits prod.splits)
  from ensureTabReady_invariant[OF r assms(2)]
  have i1: "pass_invariant page ps k st1" and ready: "s_tabs st1 ''pvp'' \<noteq> None"
    by simp_all
  have set_eq: "{j. j < Suc k \<and> failed_on_pvp page j} =
        {j. j < k \<and> failed_on_pvp page j} \<union> (if failed_on_pvp page k then {k} else {})"
    by (auto simp: less_Suc_eq)
  show ?thesis
  proof (cases "playerStats page ''pvp'' k")
    case (Inl err)
    with body have "st' = mark_missing k (ps ! k) err st1" by simp
    with i1 Inl show ?thesis
      unfolding pass_invariant_def set_eq
      by (auto simp: mark_missing_def missing_upto_Suc failed_on_pvp_def tabs_ready_def)
  next
    case (Inr vals)
    from store_stats_ready[OF ready, of "label_of (ps ! k)" vals] obtain td where
      "store_stats ''pvp'' (label_of (ps ! k)) vals st1 =
         Inr (st1\<lparr>s_tabs := (s_tabs st1)(''pvp'' \<mapsto> td)\<rparr>)"
      by blast
    with body Inr have "st' = st1\<lparr>s_tabs := (s_tabs st1)(''pvp'' \<mapsto> td)\<rparr>" by simp
    with i1 Inr show ?thesis
      unfolding pass_invariant_def set_eq
      using tabs_ready_upd[of st1 "''pvp''" td]
        found_stats_only_upd_pvp[of page ps "s_tabs st1" td]
      by (auto simp: missing_upto_Suc failed_on_pvp_def)
  qed
qed

text \<open>The per-player traversal: the step on another tab, after the pvp step.\<close>

lemma perPlayer_step_other:
  assumes "perPlayer_step page True k (ps ! k) t st = Inr st'"
    and "t \<noteq> ''pvp''" and "k < length ps"
    and "pass_invariant page ps (Suc k) st"
  shows "pass_invariant page ps (Suc k) st'"
proof (cases "failed_on_pvp page k")
  case True
  with assms(4) have "skipped True st k t"
    by (simp add: pass_invariant_def skipped_def assms(2))
  with assms(1,4) show ?thesis by (simp add: perPlayer_step_def)
next
  case False
  with assms(4) have ns: "\<not> skipped True st k t"
    by (simp add: pass_invariant_def skipped_def)
  with assms(1) obtain cached st1 where
    r: "ensureTabReady page t st = Inr (cached, st1)"
    and body: "(case (case playerStats page t k of
                   Inl err \<Rightarrow> Inl err
                 | Inr values \<Rightarrow> store_stats t (label_of (ps ! k)) values st1) of
                 Inr st2 \<Rightarrow> Inr st2
               | Inl err \<Rightarrow> Inr st1) = Inr st'"
    by (auto simp: perPlayer_step_def assms(2) split: sum.splits option.splits prod.splits)
  from ensureTabReady_invariant[OF r assms(4)]
  have i1: "pass_invariant page ps (Suc k) st1" and ready: "s_tabs st1 t \<noteq> None"
    by simp_all
  show ?thesis
  proof (cases "playerStats page t k")
    case (Inl err)
    with body i1 show ?thesis by simp
  next
    case (Inr vals)
    from store_stats_ready[OF ready, of "label_of (ps ! k)" vals] obtain td where
      td: "store_stats t (label_of (ps ! k)) vals st1 =
         Inr (st1\<lparr>s_tabs := (s_tabs st1)(t \<mapsto> td)\<rparr>)"
        "tab_stats (Some td) = (tab_stats (s_tabs st1 t))(to_str (label_of (ps ! k)) \<mapsto> vals)"
      by blast
    with body Inr have out: "st' = st1\<lparr>s_tabs := (s_tabs st1)(t \<mapsto> td)\<rparr>" by simp
    from ready obtain td0 where td0: "s_tabs st1 t = Some td0" by auto
    with i1 assms(2) have "stats_from_found page ps t (tab_stats (Some td0))"
      by (simp add: pass_invariant_def found_stats_only_def)
    from stats_from_found_upd[OF this assms(3) False Inr]
    have "stats_from_found page ps t (tab_stats (Some td))"
      unfolding td(2) td0 .
    with i1 show ?thesis
      unfolding out pass_invariant_def
      using tabs_ready_upd[of st1 t td] found_stats_only_upd[of page ps "s_tabs st1" t td]
      by simp
  qed
qed

lemma perPlayer_player:
  assumes "foldE (perPlayer_step page True k (ps ! k)) (''pvp'' # rest) st = Inr st'"
    and "''pvp'' \<notin> set rest" and "k < length ps"
    and "pass_invariant page ps k st"
  shows "pass_invariant page ps (Suc k) st'"
proof -
  from assms(1) obtain st1 where
    one: "perPlayer_step page True k (ps ! k) ''pvp'' st = Inr st1"
    and more: "foldE (perPlayer_step page True k (ps ! k)) rest st1 = Inr st'"
    by (auto split: sum.splits)
  from perPlayer_step_pvp[OF one assms(4)] have i1: "pass_invariant page ps (Suc k) st1" .
  show ?thesis
  proof (rule foldE_invariant[OF more, where I = "pass_invariant page ps (Suc k)"])
    show "pass_invariant page ps (Suc k) st1" by (rule i1)
  next
    fix t s s'
    assume "t \<in> set rest" "pass_invariant page ps (Suc k) s"
      "perPlayer_step page True k (ps ! k) t s = Inr s'"
    with assms(2,3) show "pass_invariant page ps (Suc k) s'"
      by (intro perPlayer_step_other[of page k ps t s s']) auto
  qed
qed

lemma perPlayer_prefix:
  assumes "foldE (\<lambda>(profileIndex, profile).
              foldE (perPlayer_step page True profileIndex profile) (''pvp'' # rest))
           (map (\<lambda>i. (i, ps ! i)) [0..<k]) initial_state = Inr st"
    and "''pvp'' \<notin> set rest" and "k \<le> length ps"
  shows "pass_invariant page ps k st"
proof -
  define F where "F = (\<lambda>(profileIndex, profile).
              foldE (perPlayer_step page True profileIndex profile) (''pvp'' # rest))"
  have F: "F (i, p) = foldE (perPlayer_step page True i p) (''pvp'' # rest)" for i p
    by (simp add: F_def)
  from assms(1) have "foldE F (map (\<lambda>i. (i, ps ! i)) [0..<k]) initial_state = Inr st"
    by (simp only: F_def)
  then show ?thesis
    using assms(3)
  proof (induction k arbitrary: st)
    case 0
    then show ?case using initial_invariant by simp
  next
    case (Suc k)
    from Suc.prems(1) obtain st1 where
      before: "foldE F (map (\<lambda>i. (i, ps ! i)) [0..<k]) initial_state = Inr st1"
      and this_player: "F (k, ps ! k) st1 = Inr st"
      by (auto simp: foldE_snoc split: sum.splits)
    from Suc.IH[OF before] Suc.prems(2) have "pass_invariant page ps k st1" by simp
    from perPlayer_player[OF this_player[unfolded F] assms(2) _ this] Suc.prems(2)
    show ?case by simp
  qed
qed

lemma perPlayer_loop_invariant:
  assumes "perPlayer_loop page True (''pvp'' # rest) ps initial_state = Inr st"
    and "''pvp'' \<notin> set rest"
  shows "pass_invariant page ps (length ps) st"
  using perPlayer_prefix[of page rest ps "length ps" st] assms
  by (simp add: perPlayer_loop_def enumerate_upt)

lemma length_missing_upto:
  "length (missing_upto page ps k) = length (filter (failed_on_pvp page) [0..<k])"
  by (induction k) (auto simp: missing_upto_Suc missing_upto_def failed_on_pvp_def split: sum.splits)

lemma missing_upto_member:
  "i < k \<Longrightarrow> playerStats page ''pvp'' i = Inl err \<Longrightarrow>
   missing_record (ps ! i) err \<in> set (missing_upto page ps k)"
  by (induction k) (auto simp: missing_upto_Suc less_Suc_eq)

lemma scrapeTabs_state:
  assumes "scrapeTabs page ps opts strategy = Inr res" and "''pvp'' \<in> set (tabEntries opts)"
  shows "\<exists>st. pass_invariant page ps (length ps) st \<and> sr_tabs res = s_tabs st \<and>
              sr_missing res = s_missing st \<and>
              sr_profiles res = profilesWithStatus True (s_missingIndexes st) ps"
proof -
  from tabEntries_shape[OF assms(2)] obtain rest where
    shape: "tabEntries opts = ''pvp'' # rest" "''pvp'' \<notin> set rest" by blast
  have mem: "(''pvp'' \<in> set (''pvp'' # rest)) = True" by simp
  from assms(1) have "\<exists>st. (if strategy = JStr ''perPlayer''
            then perPlayer_loop page True (''pvp'' # rest) ps initial_state
            else perTab_loop page True (''pvp'' # rest) ps initial_state) = Inr st
    \<and> res = \<lparr>sr_profiles = profilesWithStatus True (s_missingIndexes st) ps,
                      sr_tabs = s_tabs st, sr_missing = s_missing st\<rparr>"
    unfolding scrapeTabs_def Let_def shape(1) initial_state_def[symmetric] mem
    by (auto split: sum.splits)
  then obtain st where
    loop: "(if strategy = JStr ''perPlayer''
            then perPlayer_loop page True (''pvp'' # rest) ps initial_state
            else perTab_loop page True (''pvp'' # rest) ps initial_state) = Inr st"
    and res: "res = \<lparr>sr_profiles = profilesWithStatus True (s_missingIndexes st) ps,
                      sr_tabs = s_tabs st, sr_missing = s_missing st\<rparr>"
    by blast
  have "pass_invariant page ps (length ps) st"
    using loop perPlayer_loop_invariant[OF _ shape(2)] perTab_loop_invariant[OF _ shape(2)]
    by (auto split: if_splits)
  with res show ?thesis by auto
qed

text \<open>
  Claim C6. Let a pass include the pvp tab and return, under either traversal. Then
  its missing list holds one record for each player whose lookup failed on the pvp
  tab, in roster order, with the label, steamId and steamUrl of the player and the
  reason, and nothing else. Every stats entry of any other tab was read for a
  player that was found on the pvp tab; so the label of a failed player has no entry
  in another tab, unless a player that was found carries the same label. The
  \<open>missing\<close> flag of each returned profile says whether the player failed on the pvp
  tab. All of this is determined by the pass alone: the state starts empty.
\<close>

theorem scrapeTabs_missing_on_pvp:
  assumes "scrapeTabs page ps opts strategy = Inr res" and "''pvp'' \<in> set (tabEntries opts)"
  shows "sr_missing res = missing_upto page ps (length ps)
     \<and> length (sr_missing res) = length (filter (failed_on_pvp page) [0..<length ps])
     \<and> (\<forall>i err. i < length ps \<and> playerStats page ''pvp'' i = Inl err
           \<longrightarrow> missing_record (ps ! i) err \<in> set (sr_missing res))
     \<and> found_stats_only page ps (sr_tabs res)
     \<and> (\<forall>i t. i < length ps \<and> failed_on_pvp page i \<and> t \<noteq> ''pvp'' \<and>
            (\<forall>j<length ps. to_str (label_of (ps ! j)) = to_str (label_of (ps ! i))
                \<longrightarrow> failed_on_pvp page j)
           \<longrightarrow> tab_stats (sr_tabs res t) (to_str (label_of (ps ! i))) = None)
     \<and> (\<forall>i<length ps. fld (sr_profiles res ! i) ''missing'' = JBool (failed_on_pvp page i))"
proof -
  from scrapeTabs_state[OF assms] obtain st where
    inv: "pass_invariant page ps (length ps) st" and t: "sr_tabs res = s_tabs st"
    and m: "sr_missing res = s_missing st"
    and p: "sr_profiles res = profilesWithStatus True (s_missingIndexes st) ps"
    by blast
  from inv have i: "s_missing st = missing_upto page ps (length ps)"
    "s_missingIndexes st = {j. j < length ps \<and> failed_on_pvp page j}"
    "found_stats_only page ps (s_tabs st)"
    by (simp_all add: pass_invariant_def)
  have c1: "sr_missing res = missing_upto page ps (length ps)" using m i(1) by simp
  have c2: "length (sr_missing res) = length (filter (failed_on_pvp page) [0..<length ps])"
    unfolding c1 by (rule length_missing_upto)
  have c3: "\<forall>i err. i < length ps \<and> playerStats page ''pvp'' i = Inl err
           \<longrightarrow> missing_record (ps ! i) err \<in> set (sr_missing res)"
    unfolding c1 using missing_upto_member by blast
  have c4: "found_stats_only page ps (sr_tabs res)" using t i(3) by simp
  have c5: "tab_stats (sr_tabs res t) (to_str (label_of (ps ! i))) = None"
    if h: "i < length ps" "failed_on_pvp page i" "t \<noteq> ''pvp''"
      "\<forall>j<length ps. to_str (label_of (ps ! j)) = to_str (label_of (ps ! i))
                \<longrightarrow> failed_on_pvp page j" for i t
  proof (cases "sr_tabs res t")
    case None
    then show ?thesis by (simp add: tab_stats_def)
  next
    case (Some td)
    with c4 h(3) have sf: "stats_from_found page ps t (tab_stats (Some td))"
      by (simp add: found_stats_only_def)
    show ?thesis
    proof (rule ccontr)
      assume "tab_stats (sr_tabs res t) (to_str (label_of (ps ! i))) \<noteq> None"
      then obtain v where "tab_stats (Some td) (to_str (label_of (ps ! i))) = Some v"
        using Some by auto
      with sf obtain j where "j < length ps" "\<not> failed_on_pvp page j"
        "to_str (label_of (ps ! j)) = to_str (label_of (ps ! i))"
        unfolding stats_from_found_def by blast
      with h(4) show False by blast
    qed
  qed
  have c6: "\<forall>i<length ps. fld (sr_profiles res ! i) ''missing'' = JBool (failed_on_pvp page i)"
    unfolding p i(2)
    by (simp add: profilesWithStatus_def enumerate_upt fld_def)
  from c1 c2 c3 c4 c5 c6 show ?thesis by blast
qed

lemma foldE_total:
  assumes "\<And>x s. x \<in> set xs \<Longrightarrow> \<exists>s'. f x s = Inr s'"
  shows "\<exists>s'. foldE f xs st = Inr s'"
  using assms
proof (induction xs arbitrary: st)
  case Nil
  then show ?case by simp
next
  case (Cons x xs)
  from Cons.prems[of x st] obtain s1 where "f x st = Inr s1" by auto
  moreover from Cons.IH[of s1] Cons.prems obtain s2 where "foldE f xs s1 = Inr s2" by auto
  ultimately show ?case by simp
qed

text \<open>
  A pass returns when every tab can be prepared and the search reset never fails;
  a failed player lookup does not abort it.
\<close>

lemma scrapeTabs_returns:
  assumes "\<And>t. \<exists>x. tabReady page t = Inr x" and "\<And>t i. searchReset page t i = None"
  shows "\<exists>res. scrapeTabs page ps opts strategy = Inr res"
proof -
  have ready: "\<exists>c st'. ensureTabReady page t st = Inr (c, st')" for t st
    using assms(1)[of t]
    by (auto simp: ensureTabReady_def split: option.splits sum.splits prod.splits)
  have tab: "\<exists>s'. perTab_tab page sp ps t s = Inr s'" for sp t s
    using ready[of t s] by (auto simp: perTab_tab_def split: sum.splits prod.splits)
  have step: "\<exists>s'. perPlayer_step page sp i p t s = Inr s'" for sp i p t s
    using ready[of t s] assms(2)[of t i]
    by (auto simp: perPlayer_step_def split: sum.splits prod.splits option.splits)
  have player: "\<exists>s'. foldE (perPlayer_step page sp i p) ts s = Inr s'" for sp i p ts s
    by (rule foldE_total) (rule step)
  have a: "\<exists>s'. perTab_loop page sp ts ps s = Inr s'" for sp ts s
    unfolding perTab_loop_def by (rule foldE_total) (rule tab)
  have b: "\<exists>s'. perPlayer_loop page sp ts ps s = Inr s'" for sp ts s
    unfolding perPlayer_loop_def by (rule foldE_total) (auto simp: player)
  show ?thesis
    unfolding scrapeTabs_def Let_def
    using a b by (auto split: sum.splits) (metis sum.distinct(1))+
qed

theorem scrapeTabs_missing_on_pvp_witness:
  "scrapeTabs sample_page [alice, bob] None (JStr ''perPlayer'')
     = Inr (scraped (scrapeTabs sample_page [alice, bob] None (JStr ''perPlayer'')))
   \<and> ''pvp'' \<in> set (tabEntries None)
   \<and> sr_missing (scraped (scrapeTabs sample_page [alice, bob] None (JStr ''perPlayer'')))
       = [\<lparr>m_label = JStr ''Bob'', m_steamId = JStr ''76561198000000002'',
           m_steamUrl = JStr ''https://steamcommunity.com/profiles/76561198000000002'',
           m_reason = ''Could not find player row by SteamID/searchKey for Bob''\<rparr>]
   \<and> tab_stats (sr_tabs (scraped (scrapeTabs sample_page [alice, bob] None (JStr ''perPlayer'')))
         ''pve'') ''Bob'' = None
   \<and> fld (sr_profiles (scraped (scrapeTabs sample_page [alice, bob] None (JStr ''perPlayer''))) ! 1)
         ''missing'' = JBool True
   \<and> fld (sr_profiles (scraped (scrapeTabs sample_page [alice, bob] None (JStr ''perPlayer''))) ! 0)
         ''missing'' = JBool False"
proof -
  define res where "res = scraped (scrapeTabs sample_page [alice, bob] None (JStr ''perPlayer''))"
  have ret: "scrapeTabs sample_page [alice, bob] None (JStr ''perPlayer'') = Inr res"
    using scrapeTabs_returns[of sample_page "[alice, bob]" None "JStr ''perPlayer''"]
    by (auto simp: res_def scraped_def sample_page_def)
  have pvp: "''pvp'' \<in> set (tabEntries None)"
    by (simp add: tabEntries_def TAB_KEYS_def)
  note main = scrapeTabs_missing_on_pvp[OF ret pvp]
  have f1: "failed_on_pvp sample_page 1" and f0: "\<not> failed_on_pvp sample_page 0"
    by (simp_all add: failed_on_pvp_def sample_page_def)
  have upt2: "[0..<2] = [0, Suc 0]" by (simp add: upt_rec numeral_2_eq_2)
  have lbl: "label_of bob = JStr ''Bob''" "label_of alice = JStr ''Alice''"
    by (simp_all add: label_of_def bob_def alice_def fld_def jor_def)
  have m: "sr_missing res = [missing_record bob row_not_found]"
    using main by (simp add: missing_upto_def upt2 sample_page_def)
  have m': "missing_record bob row_not_found =
       \<lparr>m_label = JStr ''Bob'', m_steamId = JStr ''76561198000000002'',
           m_steamUrl = JStr ''https://steamcommunity.com/profiles/76561198000000002'',
           m_reason = ''Could not find player row by SteamID/searchKey for Bob''\<rparr>"
    by (simp add: missing_record_def lbl row_not_found_def) (simp add: bob_def fld_def)
  have only: "\<forall>j<length [alice, bob]. to_str (label_of ([alice, bob] ! j))
       = to_str (label_of ([alice, bob] ! 1)) \<longrightarrow> failed_on_pvp sample_page j"
    using f1 by (auto simp: less_Suc_eq lbl)
  have s: "tab_stats (sr_tabs res ''pve'') ''Bob'' = None"
  proof -
    from main have "\<forall>i t. i < length [alice, bob] \<and> failed_on_pvp sample_page i \<and> t \<noteq> ''pvp'' \<and>
            (\<forall>j<length [alice, bob]. to_str (label_of ([alice, bob] ! j))
                 = to_str (label_of ([alice, bob] ! i)) \<longrightarrow> failed_on_pvp sample_page j)
           \<longrightarrow> tab_stats (sr_tabs res t) (to_str (label_of ([alice, bob] ! i))) = None"
      by blast
    from this[rule_format, of 1 "''pve''"] f1 only
    show ?thesis by (simp add: lbl)
  qed
  have p: "\<forall>i<length [alice, bob]. fld (sr_profiles res ! i) ''missing''
       = JBool (failed_on_pvp sample_page i)"
    using main by blast
  have p1: "fld (sr_profiles res ! 1) ''missing'' = JBool True"
    using p[rule_format, of 1] f1 by simp
  have p0: "fld (sr_profiles res ! 0) ''missing'' = JBool False"
    using p[rule_format, of 0] f0 by simp
  from ret pvp m m' s p1 p0 show ?thesis unfolding res_def by simp
qed

end
